theory Spec2Isabelle
  imports Main "HOL-Library.Word" "HOL-Library.Multiset"
begin

section \<open>Segmented radix sort: host-side orchestration\<close>

text \<open>
  A shallow embedding of \<^verbatim>\<open>rocprim/device/device_segmented_radix_sort.hpp\<close>:
  the function \<^verbatim>\<open>detail::segmented_radix_sort_impl\<close> and the eight public
  entry points built on it. \<^verbatim>\<open>unsigned int\<close> is a 32-bit word and
  \<^verbatim>\<open>size_t\<close> a 64-bit word, so every addition, subtraction and multiplication
  wraps as in the source.
\<close>

type_synonym u32 = "32 word"
type_synonym size_t = "64 word"

subsection \<open>Status codes\<close>

datatype hipError_t = hipSuccess | hipError nat

subsection \<open>Compile-time configuration\<close>

text \<open>
  The members of \<^verbatim>\<open>config\<close> and \<^verbatim>\<open>config::warp_sort_config\<close> that the
  function reads. The configuration header is not part of the sources at hand, so the
  values are parameters. \<open>warp_sort_disabled\<close> stands for the type test
  \<^verbatim>\<open>std::is_same<warp_sort_config, DisabledWarpSortConfig>\<close>.
\<close>

record warp_sort_config =
  warp_sort_disabled :: bool
  logical_warp_size :: u32
  items_per_thread :: u32
  block_size :: u32
  partitioning_threshold :: u32

record config =
  long_radix_bits :: u32
  short_radix_bits :: u32
  sort_block_size :: u32
  sort_items_per_thread :: u32
  warp_sort :: warp_sort_config

text \<open>
  What the function learns from the key and value types: \<^verbatim>\<open>sizeof(key_type)\<close>,
  \<^verbatim>\<open>sizeof(value_type)\<close> and whether the value type differs from
  \<^verbatim>\<open>empty_type\<close>. \<open>alignment\<close> is the boundary \<^verbatim>\<open>align_size\<close> rounds to.
\<close>

record type_params =
  sizeof_key :: size_t
  sizeof_value :: size_t
  with_values :: bool
  alignment :: size_t

subsection \<open>Helpers of \<^verbatim>\<open>rocprim/detail/various.hpp\<close>\<close>

text \<open>
  Modelled from the spec: \<^verbatim>\<open>ceiling_div\<close> (\<^verbatim>\<open>detail/various.hpp\<close> is not among
  the sources). The specification gives \<open>iterations = ceil(bits / long_width)\<close>; the
  quotient is computed on the unsigned values and fits the result type whenever the
  divisor is positive. A zero divisor is undefined in the source and gives 0 here.
\<close>

definition ceiling_div :: "'a::len word \<Rightarrow> 'a word \<Rightarrow> 'a word" where
  "ceiling_div a b = word_of_nat ((unat a + unat b - 1) div unat b)"

text \<open>
  Modelled from the spec: \<^verbatim>\<open>align_size\<close> (\<^verbatim>\<open>detail/various.hpp\<close> is not among
  the sources). Region sizes are rounded up to an alignment boundary.
\<close>

definition align_size :: "type_params \<Rightarrow> size_t \<Rightarrow> size_t" where
  "align_size tp n = ceiling_div n (alignment tp) * alignment tp"

subsection \<open>Locals of \<^verbatim>\<open>segmented_radix_sort_impl\<close>: the radix pass schedule\<close>

definition partitioning_allowed :: "config \<Rightarrow> bool" where
  "partitioning_allowed cfg = (\<not> warp_sort_disabled (warp_sort cfg))"

definition max_small_segment_length :: "config \<Rightarrow> u32" where
  "max_small_segment_length cfg =
     items_per_thread (warp_sort cfg) * logical_warp_size (warp_sort cfg)"

definition small_segments_per_block :: "config \<Rightarrow> u32" where
  "small_segments_per_block cfg =
     block_size (warp_sort cfg) div logical_warp_size (warp_sort cfg)"

definition large_segment_selector ::
  "config \<Rightarrow> (nat \<Rightarrow> u32) \<Rightarrow> (nat \<Rightarrow> u32) \<Rightarrow> u32 \<Rightarrow> bool" where
  "large_segment_selector cfg begin_offsets end_offsets segment_index =
     (let segment_length =
            end_offsets (unat segment_index) - begin_offsets (unat segment_index)
      in segment_length > max_small_segment_length cfg)"

definition bits_of :: "u32 \<Rightarrow> u32 \<Rightarrow> u32" where
  "bits_of begin_bit end_bit = end_bit - begin_bit"

definition iterations :: "config \<Rightarrow> u32 \<Rightarrow> u32" where
  "iterations cfg bits = ceiling_div bits (long_radix_bits cfg)"

definition to_output :: "config \<Rightarrow> bool \<Rightarrow> u32 \<Rightarrow> bool" where
  "to_output cfg with_double_buffer bits =
     (with_double_buffer \<or> (iterations cfg bits - 1) mod 2 = 0)"

definition is_result_in_output :: "config \<Rightarrow> bool \<Rightarrow> u32 \<Rightarrow> bool" where
  "is_result_in_output cfg with_double_buffer bits =
     ((iterations cfg bits mod 2 = 0) \<noteq> to_output cfg with_double_buffer bits)"

definition radix_bits_diff :: "config \<Rightarrow> u32" where
  "radix_bits_diff cfg = long_radix_bits cfg - short_radix_bits cfg"

definition short_iterations :: "config \<Rightarrow> u32 \<Rightarrow> u32" where
  "short_iterations cfg bits =
     (if radix_bits_diff cfg \<noteq> 0
      then min (iterations cfg bits)
               ((long_radix_bits cfg * iterations cfg bits - bits) div radix_bits_diff cfg)
      else 0)"

definition long_iterations :: "config \<Rightarrow> u32 \<Rightarrow> u32" where
  "long_iterations cfg bits = iterations cfg bits - short_iterations cfg bits"

definition do_partitioning :: "config \<Rightarrow> u32 \<Rightarrow> bool" where
  "do_partitioning cfg segments =
     (partitioning_allowed cfg \<and> segments \<ge> partitioning_threshold (warp_sort cfg))"

subsection \<open>Pointers and device memory\<close>

text \<open>
  A device pointer is null or an allocation with a byte offset. Device memory is a set of
  typed arrays, each addressed by its base pointer and an element index: two arrays of
  one element type alias exactly when their base pointers are equal (as the input and
  the temporary buffer of a double buffer do). The empty value type of the keys-only
  entry points is \<open>unit\<close>.
\<close>

datatype ptr = Null | Ptr nat nat

fun ptr_add :: "ptr \<Rightarrow> size_t \<Rightarrow> ptr" where
  "ptr_add Null n = Null"
| "ptr_add (Ptr a off) n = Ptr a (off + unat n)"

record buffers =
  keys_input :: ptr
  keys_tmp :: ptr
  keys_output :: ptr
  values_input :: ptr
  values_tmp :: ptr
  values_output :: ptr

record kernel_args = buffers +
  k_to_output :: bool
  k_num_segments :: u32
  k_segment_indices :: ptr
  k_segment_indices_first :: u32
  k_long_iterations :: u32
  k_short_iterations :: u32
  k_begin_bit :: u32
  k_end_bit :: u32

datatype kernel = segmented_sort_kernel | segmented_sort_large_kernel
  | segmented_sort_small_kernel

text \<open>What the host asks of the device and the runtime, in program order.\<close>

datatype device_op =
    PartitionCall ptr size_t ptr ptr u32
  | MemcpyDeviceToHost ptr
  | StreamSynchronize
  | LaunchKernel kernel u32 u32 kernel_args

record ('k, 'v) device =
  keys_mem :: "ptr \<Rightarrow> nat \<Rightarrow> 'k"
  values_mem :: "ptr \<Rightarrow> nat \<Rightarrow> 'v"
  index_mem :: "ptr \<Rightarrow> nat \<Rightarrow> u32"
  device_ops :: "device_op list"
  console :: "(string \<times> nat) list"

text \<open>
  The status each runtime call of the function returns, by call site, and the scratch
  size the partition primitive asks for: inputs of the model, one per place where the
  source tests a status.
\<close>

datatype call_site =
    PartitionQuery | PartitionRun | CountMemcpy | CountSync | DumpSync
  | LargeLaunch | LargeSync | SmallLaunch | SmallSync | UniformLaunch | UniformSync

record hip_env =
  hip_result :: "call_site \<Rightarrow> hipError_t"
  partition_storage_required :: size_t

subsection \<open>Arguments\<close>

record call_args =
  temporary_storage :: ptr
  storage_size :: size_t
  size_items :: u32
  segments :: u32
  begin_offsets :: "nat \<Rightarrow> u32"
  end_offsets :: "nat \<Rightarrow> u32"
  begin_bit :: u32
  end_bit :: u32
  debug_synchronous :: bool

record ('k, 'v) impl_result =
  status :: hipError_t
  storage_size_out :: size_t
  result_in_output :: bool
  device_out :: "('k, 'v) device"

subsection \<open>The device-side collaborators\<close>

definition load_segment :: "(nat \<Rightarrow> 'a) \<Rightarrow> nat \<Rightarrow> nat \<Rightarrow> 'a list" where
  "load_segment arr b e = map arr [b..<e]"

definition store_segment :: "(nat \<Rightarrow> 'a) \<Rightarrow> nat \<Rightarrow> 'a list \<Rightarrow> nat \<Rightarrow> 'a" where
  "store_segment arr b xs = (\<lambda>i. if b \<le> i \<and> i < b + length xs then xs ! (i - b) else arr i)"

text \<open>The bits \<open>[lo, hi)\<close> of a key, and the rank a pass orders by.\<close>

definition key_digit :: "nat \<Rightarrow> nat \<Rightarrow> 'k::len word \<Rightarrow> nat" where
  "key_digit lo hi k = (unat k div 2 ^ lo) mod 2 ^ (hi - lo)"

definition digit_rank :: "bool \<Rightarrow> nat \<Rightarrow> nat \<Rightarrow> 'k::len word \<Rightarrow> nat" where
  "digit_rank descending lo hi k =
     (if descending then 2 ^ (hi - lo) - 1 - key_digit lo hi k else key_digit lo hi k)"

text \<open>
  Modelled from the spec: the digit-pass primitive (\<^verbatim>\<open>detail/radix_sort.hpp\<close> and
  \<^verbatim>\<open>detail/device_segmented_radix_sort.hpp\<close> are not among the sources). One
  pass buckets the elements of a segment by one digit of the key, stably, reading the
  segment from one buffer and writing it to another.
\<close>

definition digit_pass ::
  "bool \<Rightarrow> nat \<Rightarrow> nat \<Rightarrow> nat \<Rightarrow> nat \<Rightarrow> ptr \<times> ptr \<Rightarrow> ptr \<times> ptr
   \<Rightarrow> ('k::len word, 'v) device \<Rightarrow> ('k word, 'v) device" where
  "digit_pass descending lo hi b e src dst dev =
     (let pairs = zip (load_segment (keys_mem dev (fst src)) b e)
                      (load_segment (values_mem dev (snd src)) b e);
          sorted = sort_key (\<lambda>p. digit_rank descending lo hi (fst p)) pairs;
          dev1 = dev\<lparr>keys_mem := (keys_mem dev)
                   (fst dst := store_segment (keys_mem dev (fst dst)) b (map fst sorted))\<rparr>
      in dev1\<lparr>values_mem := (values_mem dev1)
                   (snd dst := store_segment (values_mem dev1 (snd dst)) b (map snd sorted))\<rparr>)"

text \<open>
  Modelled from the spec: the pass sequence of one worker group (section 4.4). The
  first pass reads the input; every pass writes the output buffer when its flag is set
  and the temporary buffer otherwise, and the flag flips after each pass, so pass
  \<open>k + 1\<close> reads what pass \<open>k\<close> wrote. The passes cover \<open>[begin_bit, end_bit)\<close> without
  gaps or overlaps: a pass starting at \<open>bit_pos\<close> with width \<open>w\<close> takes the bits
  \<open>[bit_pos, min (bit_pos + w) end_bit)\<close>.
\<close>

fun radix_passes ::
  "bool \<Rightarrow> 'a buffers_scheme \<Rightarrow> nat \<Rightarrow> nat \<Rightarrow> nat \<Rightarrow> bool \<Rightarrow> bool \<Rightarrow> nat \<Rightarrow> nat list
   \<Rightarrow> ('k::len word, 'v) device \<Rightarrow> ('k word, 'v) device" where
  "radix_passes descending bufs b e endb is_first to_out bit_pos [] dev = dev"
| "radix_passes descending bufs b e endb is_first to_out bit_pos (w # ws) dev =
     (let src = (if is_first then (keys_input bufs, values_input bufs)
                 else if to_out then (keys_tmp bufs, values_tmp bufs)
                 else (keys_output bufs, values_output bufs));
          dst = (if to_out then (keys_output bufs, values_output bufs)
                 else (keys_tmp bufs, values_tmp bufs));
          dev1 = digit_pass descending bit_pos (min (bit_pos + w) endb) b e src dst dev
      in radix_passes descending bufs b e endb False (\<not> to_out) (bit_pos + w) ws dev1)"

definition pass_widths :: "config \<Rightarrow> kernel_args \<Rightarrow> nat list" where
  "pass_widths cfg args =
     replicate (unat (k_long_iterations args)) (unat (long_radix_bits cfg))
     @ replicate (unat (k_short_iterations args)) (unat (short_radix_bits cfg))"

text \<open>
  Modelled from the spec: the work of one group of the large-segment and uniform
  strategies on the segment \<open>segment_id\<close> (sections 4.4 and 4.6).
\<close>

definition segmented_sort ::
  "config \<Rightarrow> bool \<Rightarrow> kernel_args \<Rightarrow> (nat \<Rightarrow> u32) \<Rightarrow> (nat \<Rightarrow> u32) \<Rightarrow> nat
   \<Rightarrow> ('k::len word, 'v) device \<Rightarrow> ('k word, 'v) device" where
  "segmented_sort cfg descending args begin_offs end_offs segment_id dev =
     radix_passes descending args
       (unat (begin_offs segment_id)) (unat (end_offs segment_id))
       (unat (k_end_bit args)) True (k_to_output args) (unat (k_begin_bit args))
       (pass_widths cfg args) dev"

text \<open>
  Modelled from the spec: the work of one sub-group of the small-segment strategy
  (section 4.5): the whole segment is sorted in one step, stably and by the bits
  \<open>[begin_bit, end_bit)\<close>, from the input to the buffer the flag selects.
\<close>

definition segmented_sort_small ::
  "bool \<Rightarrow> kernel_args \<Rightarrow> (nat \<Rightarrow> u32) \<Rightarrow> (nat \<Rightarrow> u32) \<Rightarrow> nat
   \<Rightarrow> ('k::len word, 'v) device \<Rightarrow> ('k word, 'v) device" where
  "segmented_sort_small descending args begin_offs end_offs segment_id dev =
     digit_pass descending (unat (k_begin_bit args)) (unat (k_end_bit args))
       (unat (begin_offs segment_id)) (unat (end_offs segment_id))
       (keys_input args, values_input args)
       (if k_to_output args then (keys_output args, values_output args)
        else (keys_tmp args, values_tmp args))
       dev"

text \<open>
  A launch runs one group per grid index: the uniform kernel on the segment of that
  index, the large-segment kernel on the segment its index array names. A group of the
  small-segment kernel holds \<open>small_segments_per_block\<close> sub-groups, each taking the
  next entry of the index array while entries remain.
\<close>

definition segment_index_at :: "('k, 'v) device \<Rightarrow> kernel_args \<Rightarrow> nat \<Rightarrow> nat" where
  "segment_index_at dev args i =
     unat (index_mem dev (k_segment_indices args) (unat (k_segment_indices_first args) + i))"

definition run_kernel ::
  "config \<Rightarrow> bool \<Rightarrow> kernel \<Rightarrow> u32 \<Rightarrow> kernel_args \<Rightarrow> (nat \<Rightarrow> u32) \<Rightarrow> (nat \<Rightarrow> u32)
   \<Rightarrow> ('k::len word, 'v) device \<Rightarrow> ('k word, 'v) device" where
  "run_kernel cfg descending k grid args begin_offs end_offs dev =
     (case k of
        segmented_sort_kernel \<Rightarrow>
          fold (\<lambda>block. segmented_sort cfg descending args begin_offs end_offs block)
               [0..<unat grid] dev
      | segmented_sort_large_kernel \<Rightarrow>
          fold (\<lambda>block d. segmented_sort cfg descending args begin_offs end_offs
                            (segment_index_at d args block) d)
               [0..<unat grid] dev
      | segmented_sort_small_kernel \<Rightarrow>
          fold (\<lambda>w d. if w < unat (k_num_segments args)
                       then segmented_sort_small descending args begin_offs end_offs
                              (segment_index_at d args w) d
                       else d)
               [0..<unat grid * unat (small_segments_per_block cfg)] dev)"

text \<open>
  Modelled from the spec: the partition primitive (\<^verbatim>\<open>device_partition.hpp\<close> is not
  among the sources). Over the indices \<open>[0, size)\<close> it writes those the predicate
  selects first, in their original order, then the others, and stores the number of
  selected indices (section 4.3).
\<close>

definition partition_effect ::
  "ptr \<Rightarrow> ptr \<Rightarrow> u32 \<Rightarrow> (u32 \<Rightarrow> bool) \<Rightarrow> ('k, 'v) device \<Rightarrow> ('k, 'v) device" where
  "partition_effect output selected_count_output n predicate dev =
     (let input = map word_of_nat [0..<unat n];
          selected = filter predicate input;
          rejected = filter (\<lambda>i. \<not> predicate i) input;
          dev1 = dev\<lparr>index_mem := (index_mem dev)
                   (output := store_segment (index_mem dev output) 0 (selected @ rejected))\<rparr>
      in dev1\<lparr>index_mem := (index_mem dev1)
                   (selected_count_output :=
                      store_segment (index_mem dev1 selected_count_output) 0
                        [word_of_nat (length selected)])\<rparr>)"

subsection \<open>Runtime calls\<close>

text \<open>
  Modelled from the spec: the call of the partition primitive. With a null storage
  pointer it only reports the scratch size it needs; otherwise it partitions, and its
  writes are in place when it reports success.
\<close>

definition partition ::
  "hip_env \<Rightarrow> ptr \<Rightarrow> size_t \<Rightarrow> ptr \<Rightarrow> ptr \<Rightarrow> u32 \<Rightarrow> (u32 \<Rightarrow> bool) \<Rightarrow> ('k, 'v) device
   \<Rightarrow> hipError_t \<times> size_t \<times> ('k, 'v) device" where
  "partition env storage storage_bytes output selected_count_output n predicate dev =
     (let dev1 = dev\<lparr>device_ops := device_ops dev
                   @ [PartitionCall storage storage_bytes output selected_count_output n]\<rparr>
      in if storage = Null
         then (hip_result env PartitionQuery, partition_storage_required env, dev1)
         else (hip_result env PartitionRun, storage_bytes,
               if hip_result env PartitionRun = hipSuccess
               then partition_effect output selected_count_output n predicate dev1
               else dev1))"

text \<open>
  \<^verbatim>\<open>hipLaunchKernelGGL\<close>: the launch is recorded, and the kernel has run when the
  status read after the launch is \<^verbatim>\<open>hipSuccess\<close>.
\<close>

definition hipLaunchKernelGGL ::
  "hip_env \<Rightarrow> call_site \<Rightarrow> config \<Rightarrow> bool \<Rightarrow> kernel \<Rightarrow> u32 \<Rightarrow> u32 \<Rightarrow> kernel_args
   \<Rightarrow> (nat \<Rightarrow> u32) \<Rightarrow> (nat \<Rightarrow> u32) \<Rightarrow> ('k::len word, 'v) device \<Rightarrow> ('k word, 'v) device" where
  "hipLaunchKernelGGL env site cfg descending k grid block args begin_offs end_offs dev =
     (let dev1 = dev\<lparr>device_ops := device_ops dev @ [LaunchKernel k grid block args]\<rparr>
      in if hip_result env site = hipSuccess
         then run_kernel cfg descending k grid args begin_offs end_offs dev1
         else dev1)"

text \<open>
  The macro \<^verbatim>\<open>ROCPRIM_DETAIL_HIP_SYNC_AND_RETURN_ON_ERROR\<close>. A status other than
  \<^verbatim>\<open>hipSuccess\<close> in the result makes the caller return it. The elapsed time the
  macro prints is not modelled.
\<close>

definition hip_sync_and_return_on_error ::
  "hip_env \<Rightarrow> bool \<Rightarrow> call_site \<Rightarrow> call_site \<Rightarrow> string \<Rightarrow> u32 \<Rightarrow> ('k, 'v) device
   \<Rightarrow> hipError_t \<times> ('k, 'v) device" where
  "hip_sync_and_return_on_error env debug launch_site sync_site name n dev =
     (let error1 = hip_result env launch_site
      in if error1 \<noteq> hipSuccess then (error1, dev)
         else if debug
         then (let dev1 = dev\<lparr>console := console dev @ [(name, unat n)]\<rparr>;
                   dev2 = dev1\<lparr>device_ops := device_ops dev1 @ [StreamSynchronize]\<rparr>
               in (hip_result env sync_site, dev2))
         else (hipSuccess, dev))"

subsection \<open>\<^verbatim>\<open>segmented_radix_sort_impl\<close>\<close>

definition keys_bytes :: "type_params \<Rightarrow> call_args \<Rightarrow> size_t" where
  "keys_bytes tp a = align_size tp (ucast (size_items a) * sizeof_key tp)"

definition values_bytes :: "type_params \<Rightarrow> call_args \<Rightarrow> size_t" where
  "values_bytes tp a =
     (if with_values tp then align_size tp (ucast (size_items a) * sizeof_value tp) else 0)"

definition segment_indices_bytes :: "type_params \<Rightarrow> call_args \<Rightarrow> size_t" where
  "segment_indices_bytes tp a = align_size tp (ucast (segments a) * 4)"

definition large_segment_count_bytes :: "type_params \<Rightarrow> size_t" where
  "large_segment_count_bytes tp = align_size tp 4"

definition selector_of :: "config \<Rightarrow> call_args \<Rightarrow> u32 \<Rightarrow> bool" where
  "selector_of cfg a = large_segment_selector cfg (begin_offsets a) (end_offsets a)"

text \<open>The block \<^verbatim>\<open>if(temporary_storage == nullptr)\<close>.\<close>

definition query_storage_size ::
  "config \<Rightarrow> type_params \<Rightarrow> hip_env \<Rightarrow> call_args \<Rightarrow> buffers \<Rightarrow> ('k, 'v) device
   \<Rightarrow> ('k, 'v) impl_result" where
  "query_storage_size cfg tp env a bufs dev =
     (let with_double_buffer = (keys_tmp bufs \<noteq> Null);
          bits = end_bit a - begin_bit a;
          res = is_result_in_output cfg with_double_buffer bits;
          s0 = (if with_double_buffer then 0 else keys_bytes tp a + values_bytes tp a)
      in if do_partitioning cfg (segments a)
         then (let s1 = s0 + (segment_indices_bytes tp a + large_segment_count_bytes tp);
                   (partition_result, partition_storage_size, dev1) =
                      partition env Null 0 Null Null (segments a) (selector_of cfg a) dev
               in if hipSuccess \<noteq> partition_result
                  then \<lparr>status = partition_result, storage_size_out = s1,
                        result_in_output = res, device_out = dev1\<rparr>
                  else (let s2 = s1 + partition_storage_size
                        in \<lparr>status = hipSuccess,
                            storage_size_out = (if s2 = 0 then 4 else s2),
                            result_in_output = res, device_out = dev1\<rparr>))
         else \<lparr>status = hipSuccess, storage_size_out = (if s0 = 0 then 4 else s0),
               result_in_output = res, device_out = dev\<rparr>)"

text \<open>The diagnostic dump of the block \<^verbatim>\<open>if(debug_synchronous)\<close>.\<close>

definition debug_dump :: "config \<Rightarrow> call_args \<Rightarrow> ('k, 'v) device \<Rightarrow> ('k, 'v) device" where
  "debug_dump cfg a dev =
     (let bits = end_bit a - begin_bit a
      in dev\<lparr>console := console dev @
           [(''begin_bit'', unat (begin_bit a)),
            (''end_bit'', unat (end_bit a)),
            (''bits'', unat bits),
            (''segments'', unat (segments a)),
            (''radix_bits_diff'', unat (radix_bits_diff cfg)),
            (''storage_size'', unat (storage_size a)),
            (''iterations'', unat (iterations cfg bits)),
            (''long_iterations'', unat (long_iterations cfg bits)),
            (''short_iterations'', unat (short_iterations cfg bits)),
            (''do_partitioning'', if do_partitioning cfg (segments a) then 1 else 0),
            (''config::sort::block_size'', unat (sort_block_size cfg)),
            (''config::sort::items_per_thread'', unat (sort_items_per_thread cfg))],
          device_ops := device_ops dev @ [StreamSynchronize]\<rparr>)"

text \<open>
  The carving of the temporary storage: the buffers with the temporary key and value
  arrays filled in, then the pointers \<^verbatim>\<open>large_segment_indices_output\<close>,
  \<^verbatim>\<open>large_segment_count_output\<close> and \<^verbatim>\<open>partition_storage\<close>.
\<close>

definition carve :: "type_params \<Rightarrow> call_args \<Rightarrow> buffers \<Rightarrow> buffers \<times> ptr \<times> ptr \<times> ptr" where
  "carve tp a bufs =
     (let ptr0 = temporary_storage a;
          (bufs1, ptr1) =
             (if keys_tmp bufs = Null
              then (bufs\<lparr>keys_tmp := ptr0,
                         values_tmp := (if with_values tp
                                        then ptr_add ptr0 (keys_bytes tp a) else Null)\<rparr>,
                    ptr_add (ptr_add ptr0 (keys_bytes tp a)) (values_bytes tp a))
              else (bufs, ptr0));
          ptr2 = ptr_add ptr1 (segment_indices_bytes tp a);
          ptr3 = ptr_add ptr2 (large_segment_count_bytes tp)
      in (bufs1, ptr1, ptr2, ptr3))"

definition make_args ::
  "buffers \<Rightarrow> bool \<Rightarrow> u32 \<Rightarrow> ptr \<Rightarrow> u32 \<Rightarrow> u32 \<Rightarrow> u32 \<Rightarrow> u32 \<Rightarrow> u32 \<Rightarrow> kernel_args" where
  "make_args bufs to_out n indices first long_its short_its bb eb =
     \<lparr>keys_input = keys_input bufs, keys_tmp = keys_tmp bufs, keys_output = keys_output bufs,
      values_input = values_input bufs, values_tmp = values_tmp bufs,
      values_output = values_output bufs,
      k_to_output = to_out, k_num_segments = n, k_segment_indices = indices,
      k_segment_indices_first = first, k_long_iterations = long_its,
      k_short_iterations = short_its, k_begin_bit = bb, k_end_bit = eb\<rparr>"

text \<open>The block \<^verbatim>\<open>if(do_partitioning)\<close>.\<close>

definition partitioned_dispatch ::
  "config \<Rightarrow> hip_env \<Rightarrow> bool \<Rightarrow> call_args \<Rightarrow> bool \<Rightarrow> buffers \<Rightarrow> ptr \<Rightarrow> ptr \<Rightarrow> ptr
   \<Rightarrow> ('k::len word, 'v) device \<Rightarrow> hipError_t \<times> ('k word, 'v) device" where
  "partitioned_dispatch cfg env descending a with_double_buffer bufs
       large_segment_indices_output large_segment_count_output partition_storage dev =
     (let bits = end_bit a - begin_bit a;
          (result, partition_storage_size, dev1) =
             partition env partition_storage 0 large_segment_indices_output
               large_segment_count_output (segments a) (selector_of cfg a) dev
      in if hipSuccess \<noteq> result then (result, dev1)
         else (let dev2 = dev1\<lparr>device_ops := device_ops dev1
                            @ [MemcpyDeviceToHost large_segment_count_output]\<rparr>;
                   result2 = hip_result env CountMemcpy
               in if hipSuccess \<noteq> result2 then (result2, dev2)
                  else (let dev3 = dev2\<lparr>device_ops := device_ops dev2 @ [StreamSynchronize]\<rparr>;
                            result3 = hip_result env CountSync
                        in if hipSuccess \<noteq> result3 then (result3, dev3)
                           else (let large_segment_count =
                                       index_mem dev3 large_segment_count_output 0;
                                     (e1, dev4) =
                                       (if large_segment_count > 0
                                        then hip_sync_and_return_on_error env
                                               (debug_synchronous a) LargeLaunch LargeSync
                                               ''segmented_sort:large_segments''
                                               large_segment_count
                                               (hipLaunchKernelGGL env LargeLaunch cfg descending
                                                  segmented_sort_large_kernel
                                                  large_segment_count (sort_block_size cfg)
                                                  (make_args bufs
                                                     (to_output cfg with_double_buffer bits) 0
                                                     large_segment_indices_output 0
                                                     (long_iterations cfg bits)
                                                     (short_iterations cfg bits)
                                                     (begin_bit a) (end_bit a))
                                                  (begin_offsets a) (end_offsets a) dev3)
                                        else (hipSuccess, dev3))
                                 in if e1 \<noteq> hipSuccess then (e1, dev4)
                                    else (let small_segment_count =
                                                segments a - large_segment_count
                                          in if small_segment_count > 0
                                             then hip_sync_and_return_on_error env
                                                    (debug_synchronous a) SmallLaunch SmallSync
                                                    ''segmented_sort:small_segments''
                                                    small_segment_count
                                                    (hipLaunchKernelGGL env SmallLaunch cfg
                                                       descending segmented_sort_small_kernel
                                                       (ceiling_div small_segment_count
                                                          (small_segments_per_block cfg))
                                                       (block_size (warp_sort cfg))
                                                       (make_args bufs
                                                          (is_result_in_output cfg
                                                             with_double_buffer bits)
                                                          small_segment_count
                                                          large_segment_indices_output
                                                          large_segment_count 0 0
                                                          (begin_bit a) (end_bit a))
                                                       (begin_offsets a) (end_offsets a) dev4)
                                             else (hipSuccess, dev4))))))"

text \<open>The \<^verbatim>\<open>else\<close> block: one launch over all segments.\<close>

definition uniform_dispatch ::
  "config \<Rightarrow> hip_env \<Rightarrow> bool \<Rightarrow> call_args \<Rightarrow> bool \<Rightarrow> buffers
   \<Rightarrow> ('k::len word, 'v) device \<Rightarrow> hipError_t \<times> ('k word, 'v) device" where
  "uniform_dispatch cfg env descending a with_double_buffer bufs dev =
     (let bits = end_bit a - begin_bit a
      in hip_sync_and_return_on_error env (debug_synchronous a) UniformLaunch UniformSync
           ''segmented_sort'' (segments a)
           (hipLaunchKernelGGL env UniformLaunch cfg descending segmented_sort_kernel
              (segments a) (sort_block_size cfg)
              (make_args bufs (to_output cfg with_double_buffer bits) 0 Null 0
                 (long_iterations cfg bits) (short_iterations cfg bits)
                 (begin_bit a) (end_bit a))
              (begin_offsets a) (end_offsets a) dev))"

definition segmented_radix_sort_impl ::
  "config \<Rightarrow> type_params \<Rightarrow> hip_env \<Rightarrow> bool \<Rightarrow> call_args \<Rightarrow> buffers
   \<Rightarrow> ('k::len word, 'v) device \<Rightarrow> ('k word, 'v) impl_result" where
  "segmented_radix_sort_impl cfg tp env descending a bufs dev =
     (let with_double_buffer = (keys_tmp bufs \<noteq> Null);
          bits = end_bit a - begin_bit a;
          res = is_result_in_output cfg with_double_buffer bits
      in if temporary_storage a = Null then query_storage_size cfg tp env a bufs dev
         else if segments a = 0
         then \<lparr>status = hipSuccess, storage_size_out = storage_size a,
               result_in_output = res, device_out = dev\<rparr>
         else (let dev1 = (if debug_synchronous a then debug_dump cfg a dev else dev);
                   error = (if debug_synchronous a then hip_result env DumpSync
                            else hipSuccess)
               in if error \<noteq> hipSuccess
                  then \<lparr>status = error, storage_size_out = storage_size a,
                        result_in_output = res, device_out = dev1\<rparr>
                  else (let (bufs1, large_segment_indices_output,
                               large_segment_count_output, partition_storage) =
                               carve tp a bufs;
                            (e, dev2) =
                              (if do_partitioning cfg (segments a)
                               then partitioned_dispatch cfg env descending a
                                      with_double_buffer bufs1 large_segment_indices_output
                                      large_segment_count_output partition_storage dev1
                               else uniform_dispatch cfg env descending a
                                      with_double_buffer bufs1 dev1)
                        in \<lparr>status = e, storage_size_out = storage_size a,
                            result_in_output = res, device_out = dev2\<rparr>)))"

subsection \<open>The public entry points\<close>

text \<open>
  Modelled from the spec: \<^verbatim>\<open>double_buffer\<close> (\<^verbatim>\<open>types.hpp\<close> is not among the
  sources): the pair of a current and an alternate buffer, and the swap that exchanges
  the two roles.
\<close>

record double_buffer =
  current :: ptr
  alternate :: ptr

definition swap :: "double_buffer \<Rightarrow> double_buffer" where
  "swap d = \<lparr>current = alternate d, alternate = current d\<rparr>"

record ('k, 'v) call_result =
  error :: hipError_t
  storage_size_after :: size_t
  device_after :: "('k, 'v) device"

text \<open>Separate input and output buffers: the temporary buffers are null.\<close>

definition sort_to_output ::
  "config \<Rightarrow> type_params \<Rightarrow> hip_env \<Rightarrow> bool \<Rightarrow> call_args \<Rightarrow> ptr \<Rightarrow> ptr \<Rightarrow> ptr \<Rightarrow> ptr
   \<Rightarrow> ('k::len word, 'v) device \<Rightarrow> ('k word, 'v) call_result" where
  "sort_to_output cfg tp env descending a keys_in keys_out values_in values_out dev =
     (let r = segmented_radix_sort_impl cfg tp env descending a
                \<lparr>keys_input = keys_in, keys_tmp = Null, keys_output = keys_out,
                 values_input = values_in, values_tmp = Null, values_output = values_out\<rparr>
                dev
      in \<lparr>error = status r, storage_size_after = storage_size_out r,
          device_after = device_out r\<rparr>)"

definition segmented_radix_sort_keys ::
  "config \<Rightarrow> type_params \<Rightarrow> hip_env \<Rightarrow> call_args \<Rightarrow> ptr \<Rightarrow> ptr
   \<Rightarrow> ('k::len word, unit) device \<Rightarrow> ('k word, unit) call_result" where
  "segmented_radix_sort_keys cfg tp env a keys_in keys_out dev =
     sort_to_output cfg (tp\<lparr>with_values := False\<rparr>) env False a keys_in keys_out Null Null dev"

definition segmented_radix_sort_keys_desc ::
  "config \<Rightarrow> type_params \<Rightarrow> hip_env \<Rightarrow> call_args \<Rightarrow> ptr \<Rightarrow> ptr
   \<Rightarrow> ('k::len word, unit) device \<Rightarrow> ('k word, unit) call_result" where
  "segmented_radix_sort_keys_desc cfg tp env a keys_in keys_out dev =
     sort_to_output cfg (tp\<lparr>with_values := False\<rparr>) env True a keys_in keys_out Null Null dev"

definition segmented_radix_sort_pairs ::
  "config \<Rightarrow> type_params \<Rightarrow> hip_env \<Rightarrow> call_args \<Rightarrow> ptr \<Rightarrow> ptr \<Rightarrow> ptr \<Rightarrow> ptr
   \<Rightarrow> ('k::len word, 'v) device \<Rightarrow> ('k word, 'v) call_result" where
  "segmented_radix_sort_pairs cfg tp env a keys_in keys_out values_in values_out dev =
     sort_to_output cfg tp env False a keys_in keys_out values_in values_out dev"

definition segmented_radix_sort_pairs_desc ::
  "config \<Rightarrow> type_params \<Rightarrow> hip_env \<Rightarrow> call_args \<Rightarrow> ptr \<Rightarrow> ptr \<Rightarrow> ptr \<Rightarrow> ptr
   \<Rightarrow> ('k::len word, 'v) device \<Rightarrow> ('k word, 'v) call_result" where
  "segmented_radix_sort_pairs_desc cfg tp env a keys_in keys_out values_in values_out dev =
     sort_to_output cfg tp env True a keys_in keys_out values_in values_out dev"

text \<open>
  The double-buffer overloads: the current buffer is both the input and the temporary
  buffer, the alternate one the output, and the handles are swapped after the call when
  the temporary storage is not null and the result is in the output.
\<close>

definition sort_double_buffer ::
  "config \<Rightarrow> type_params \<Rightarrow> hip_env \<Rightarrow> bool \<Rightarrow> call_args \<Rightarrow> double_buffer \<Rightarrow> double_buffer
   \<Rightarrow> ('k::len word, 'v) device
   \<Rightarrow> ('k word, 'v) call_result \<times> double_buffer \<times> double_buffer" where
  "sort_double_buffer cfg tp env descending a keys vals dev =
     (let r = segmented_radix_sort_impl cfg tp env descending a
                \<lparr>keys_input = current keys, keys_tmp = current keys,
                 keys_output = alternate keys,
                 values_input = current vals, values_tmp = current vals,
                 values_output = alternate vals\<rparr>
                dev;
          swapped = (temporary_storage a \<noteq> Null \<and> result_in_output r)
      in (\<lparr>error = status r, storage_size_after = storage_size_out r,
           device_after = device_out r\<rparr>,
          if swapped then swap keys else keys,
          if swapped then swap vals else vals))"

definition null_values :: double_buffer where
  "null_values = \<lparr>current = Null, alternate = Null\<rparr>"

definition segmented_radix_sort_keys_db ::
  "config \<Rightarrow> type_params \<Rightarrow> hip_env \<Rightarrow> call_args \<Rightarrow> double_buffer
   \<Rightarrow> ('k::len word, unit) device \<Rightarrow> ('k word, unit) call_result \<times> double_buffer" where
  "segmented_radix_sort_keys_db cfg tp env a keys dev =
     (let (r, keys1, vals1) =
            sort_double_buffer cfg (tp\<lparr>with_values := False\<rparr>) env False a keys null_values dev
      in (r, keys1))"

definition segmented_radix_sort_keys_desc_db ::
  "config \<Rightarrow> type_params \<Rightarrow> hip_env \<Rightarrow> call_args \<Rightarrow> double_buffer
   \<Rightarrow> ('k::len word, unit) device \<Rightarrow> ('k word, unit) call_result \<times> double_buffer" where
  "segmented_radix_sort_keys_desc_db cfg tp env a keys dev =
     (let (r, keys1, vals1) =
            sort_double_buffer cfg (tp\<lparr>with_values := False\<rparr>) env True a keys null_values dev
      in (r, keys1))"

definition segmented_radix_sort_pairs_db ::
  "config \<Rightarrow> type_params \<Rightarrow> hip_env \<Rightarrow> call_args \<Rightarrow> double_buffer \<Rightarrow> double_buffer
   \<Rightarrow> ('k::len word, 'v) device
   \<Rightarrow> ('k word, 'v) call_result \<times> double_buffer \<times> double_buffer" where
  "segmented_radix_sort_pairs_db cfg tp env a keys vals dev =
     sort_double_buffer cfg tp env False a keys vals dev"

definition segmented_radix_sort_pairs_desc_db ::
  "config \<Rightarrow> type_params \<Rightarrow> hip_env \<Rightarrow> call_args \<Rightarrow> double_buffer \<Rightarrow> double_buffer
   \<Rightarrow> ('k::len word, 'v) device
   \<Rightarrow> ('k word, 'v) call_result \<times> double_buffer \<times> double_buffer" where
  "segmented_radix_sort_pairs_desc_db cfg tp env a keys vals dev =
     sort_double_buffer cfg tp env True a keys vals dev"

subsection \<open>Reading the operation log\<close>

text \<open>The kernel launches and the partition calls among recorded operations.\<close>

definition launches :: "device_op list \<Rightarrow> device_op list" where
  "launches ops = filter (\<lambda>op. case op of LaunchKernel k g b args \<Rightarrow> True | _ \<Rightarrow> False) ops"

definition partition_calls :: "device_op list \<Rightarrow> device_op list" where
  "partition_calls ops =
     filter (\<lambda>op. case op of PartitionCall s n out cnt m \<Rightarrow> True | _ \<Rightarrow> False) ops"

text \<open>The first status other than success among call sites taken in program order.\<close>

fun first_failure :: "hip_env \<Rightarrow> call_site list \<Rightarrow> hipError_t" where
  "first_failure env [] = hipSuccess"
| "first_failure env (site # sites) =
     (if hip_result env site \<noteq> hipSuccess then hip_result env site
      else first_failure env sites)"

subsection \<open>Segments as lists of pairs\<close>

text \<open>The (key, value) pairs a segment holds in a pair of key and value arrays.\<close>

definition segment_pairs :: "('k, 'v) device \<Rightarrow> ptr \<times> ptr \<Rightarrow> nat \<Rightarrow> nat \<Rightarrow> ('k \<times> 'v) list" where
  "segment_pairs dev p b e =
     zip (load_segment (keys_mem dev (fst p)) b e) (load_segment (values_mem dev (snd p)) b e)"

text \<open>
  The three pairs of arrays a call works on, the pair that holds the result, and the
  element indices of a segment.
\<close>

definition input_of :: "'a buffers_scheme \<Rightarrow> ptr \<times> ptr" where
  "input_of bufs = (keys_input bufs, values_input bufs)"

definition tmp_of :: "'a buffers_scheme \<Rightarrow> ptr \<times> ptr" where
  "tmp_of bufs = (keys_tmp bufs, values_tmp bufs)"

definition output_of :: "'a buffers_scheme \<Rightarrow> ptr \<times> ptr" where
  "output_of bufs = (keys_output bufs, values_output bufs)"

definition result_of :: "'a buffers_scheme \<Rightarrow> bool \<Rightarrow> ptr \<times> ptr" where
  "result_of bufs res = (if res then output_of bufs else tmp_of bufs)"

definition in_segment :: "(nat \<Rightarrow> u32) \<Rightarrow> (nat \<Rightarrow> u32) \<Rightarrow> nat \<Rightarrow> nat \<Rightarrow> bool" where
  "in_segment bo eo i j = (unat (bo i) \<le> j \<and> j < unat (eo i))"

text \<open>What a sequence of passes does to the list of pairs of one segment.\<close>

fun sort_passes ::
  "bool \<Rightarrow> nat \<Rightarrow> nat \<Rightarrow> nat list \<Rightarrow> ('k::len word \<times> 'v) list \<Rightarrow> ('k word \<times> 'v) list" where
  "sort_passes d endb bit_pos [] xs = xs"
| "sort_passes d endb bit_pos (w # ws) xs =
     sort_passes d endb (bit_pos + w) ws
       (sort_key (\<lambda>p. digit_rank d bit_pos (min (bit_pos + w) endb) (fst p)) xs)"

text \<open>
  The segment indices the selector takes for large and for small, as the partition
  primitive orders them.
\<close>

definition large_indices :: "config \<Rightarrow> call_args \<Rightarrow> nat list" where
  "large_indices cfg a =
     filter (\<lambda>i. selector_of cfg a (word_of_nat i)) [0..<unat (segments a)]"

definition small_indices :: "config \<Rightarrow> call_args \<Rightarrow> nat list" where
  "small_indices cfg a =
     filter (\<lambda>i. \<not> selector_of cfg a (word_of_nat i)) [0..<unat (segments a)]"

text \<open>
  The capacity of a worker group of the small-segment strategy in the words of the
  specification, sub-groups per group times items per sub-group: a group holds
  \<open>small_segments_per_block\<close> sub-groups, and a sub-group holds up to
  \<open>max_small_segment_length\<close> items. It is stated here to be compared with the
  threshold of the selector.
\<close>

definition per_group_capacity :: "config \<Rightarrow> u32" where
  "per_group_capacity cfg = small_segments_per_block cfg * max_small_segment_length cfg"

text \<open>
  Two device states hold the same data when their key and value arrays agree, and the
  same memory when their index arrays agree as well; the operation log and the console
  may differ.
\<close>

definition same_data :: "('k, 'v) device \<Rightarrow> ('k, 'v) device \<Rightarrow> bool" where
  "same_data dev dev' \<longleftrightarrow> keys_mem dev = keys_mem dev' \<and> values_mem dev = values_mem dev'"

definition same_memory :: "('k, 'v) device \<Rightarrow> ('k, 'v) device \<Rightarrow> bool" where
  "same_memory dev dev' \<longleftrightarrow> same_data dev dev' \<and> index_mem dev = index_mem dev'"

subsection \<open>Well-formed calls\<close>

text \<open>
  Valid offsets: every segment lies within the input and no two segments overlap. A
  valid configuration has a positive long digit width, a short width not above it and,
  when the small-segment strategy is enabled, at least one sub-group per group. The
  alignment is positive and at most \<open>2 ^ 32\<close>.
\<close>

definition valid_offsets :: "call_args \<Rightarrow> bool" where
  "valid_offsets a \<longleftrightarrow>
     (\<forall>i<unat (segments a).
        begin_offsets a i \<le> end_offsets a i \<and> end_offsets a i \<le> size_items a
        \<and> (\<forall>i'<i. end_offsets a i' \<le> begin_offsets a i
                  \<or> end_offsets a i \<le> begin_offsets a i'))"

definition valid_config :: "config \<Rightarrow> bool" where
  "valid_config cfg \<longleftrightarrow>
     0 < long_radix_bits cfg \<and> short_radix_bits cfg \<le> long_radix_bits cfg
     \<and> (partitioning_allowed cfg \<longrightarrow> 0 < small_segments_per_block cfg)"

definition valid_alignment :: "type_params \<Rightarrow> bool" where
  "valid_alignment tp \<longleftrightarrow> 0 < alignment tp \<and> alignment tp \<le> 4294967296"

text \<open>
  Segments of a set of indices that share no element index, and the effect of sorting
  those segments: each holds, in the result arrays, the stable sort of what the input
  arrays held, and elements outside the segments are as they were.
\<close>

definition disjoint_on :: "call_args \<Rightarrow> nat set \<Rightarrow> bool" where
  "disjoint_on a I \<longleftrightarrow>
     (\<forall>i\<in>I. \<forall>i'\<in>I. i \<noteq> i' \<longrightarrow>
        (\<forall>j. \<not> (in_segment (begin_offsets a) (end_offsets a) i j
                 \<and> in_segment (begin_offsets a) (end_offsets a) i' j)))"

definition sorted_on ::
  "bool \<Rightarrow> call_args \<Rightarrow> nat set \<Rightarrow> ptr \<times> ptr \<Rightarrow> ptr \<times> ptr
   \<Rightarrow> ('k::len word, 'v) device \<Rightarrow> ('k word, 'v) device \<Rightarrow> bool" where
  "sorted_on d a I inp res dev dev' \<longleftrightarrow>
     (\<forall>i\<in>I. segment_pairs dev' res (unat (begin_offsets a i)) (unat (end_offsets a i))
              = sort_key (\<lambda>p. digit_rank d (unat (begin_bit a)) (unat (end_bit a)) (fst p))
                  (segment_pairs dev inp (unat (begin_offsets a i)) (unat (end_offsets a i))))
     \<and> (\<forall>q q' j. (\<forall>i\<in>I. \<not> in_segment (begin_offsets a) (end_offsets a) i j) \<longrightarrow>
            keys_mem dev' q j = keys_mem dev q j \<and> values_mem dev' q' j = values_mem dev q' j)"


subsection \<open>Example inputs\<close>

text \<open>
  A configuration with 7-bit long passes and 6-bit short passes, whose small-segment
  strategy takes segments of up to four items, two per group, once there are three
  segments; and the same configuration with the small-segment strategy disabled.
\<close>

definition cfg76 :: config where
  "cfg76 = \<lparr>long_radix_bits = 7, short_radix_bits = 6, sort_block_size = 256,
     sort_items_per_thread = 10,
     warp_sort = \<lparr>warp_sort_disabled = False, logical_warp_size = 4, items_per_thread = 1,
       block_size = 8, partitioning_threshold = 3\<rparr>\<rparr>"

definition cfg76_uniform :: config where
  "cfg76_uniform = \<lparr>long_radix_bits = 7, short_radix_bits = 6, sort_block_size = 256,
     sort_items_per_thread = 10,
     warp_sort = \<lparr>warp_sort_disabled = True, logical_warp_size = 1, items_per_thread = 1,
       block_size = 1, partitioning_threshold = 0\<rparr>\<rparr>"

text \<open>One-byte keys with four-byte values, regions aligned to 256 bytes.\<close>

definition tp14 :: type_params where
  "tp14 = \<lparr>sizeof_key = 1, sizeof_value = 4, with_values = True, alignment = 256\<rparr>"

text \<open>A runtime in which every call succeeds, and runtimes in which one call fails.\<close>

definition env_ok :: hip_env where
  "env_ok = \<lparr>hip_result = (\<lambda>site. hipSuccess), partition_storage_required = 1024\<rparr>"

definition env_failing :: "call_site \<Rightarrow> hip_env" where
  "env_failing bad =
     \<lparr>hip_result = (\<lambda>site. if site = bad then hipError 1 else hipSuccess),
      partition_storage_required = 1024\<rparr>"

text \<open>
  The example of the specification: eight keys in three segments with the offsets
  0, 2, 3, 8. Keys live at allocation 1, values at allocation 3, the outputs at
  allocations 2 and 4 and the temporary storage at allocation 0.
\<close>

definition offsets3 :: "nat \<Rightarrow> u32" where
  "offsets3 i = (if i = 0 then 0 else if i = 1 then 2 else if i = 2 then 3 else 8)"

definition call8 :: call_args where
  "call8 = \<lparr>temporary_storage = Ptr 0 0, storage_size = 2048, size_items = 8, segments = 3,
     begin_offsets = offsets3, end_offsets = (\<lambda>i. offsets3 (Suc i)),
     begin_bit = 0, end_bit = 8, debug_synchronous = False\<rparr>"

definition dev8 :: "(8 word, 32 word) device" where
  "dev8 = \<lparr>keys_mem = (\<lambda>p i. if p = Ptr 1 0 \<and> i < 8 then [6, 3, 5, 4, 2, 8, 1, 7] ! i else 0),
     values_mem = (\<lambda>p i. if p = Ptr 3 0 \<and> i < 8 then [10, 11, 12, 13, 14, 15, 16, 17] ! i
                          else 0),
     index_mem = (\<lambda>p i. 0), device_ops = [], console = []\<rparr>"

definition keys8 :: double_buffer where
  "keys8 = \<lparr>current = Ptr 1 0, alternate = Ptr 2 0\<rparr>"

definition values8 :: double_buffer where
  "values8 = \<lparr>current = Ptr 3 0, alternate = Ptr 4 0\<rparr>"

text \<open>The buffers of a call with separate outputs, a sizing call and a call without segments.\<close>

definition bufs8 :: buffers where
  "bufs8 = \<lparr>keys_input = Ptr 1 0, keys_tmp = Null, keys_output = Ptr 2 0,
     values_input = Ptr 3 0, values_tmp = Null, values_output = Ptr 4 0\<rparr>"

definition call8_query :: call_args where
  "call8_query = call8\<lparr>temporary_storage := Null\<rparr>"

definition call0 :: call_args where
  "call0 = call8\<lparr>segments := 0, end_bit := 7\<rparr>"

section \<open>Basic facts about the model\<close>

subsection \<open>The three paths of \<^verbatim>\<open>segmented_radix_sort_impl\<close>\<close>

lemma impl_query:
  "temporary_storage a = Null \<Longrightarrow>
   segmented_radix_sort_impl cfg tp env d a bufs dev = query_storage_size cfg tp env a bufs dev"
  by (simp add: segmented_radix_sort_impl_def Let_def)

lemma impl_result_flag:
  "result_in_output (segmented_radix_sort_impl cfg tp env d a bufs dev)
   = is_result_in_output cfg (keys_tmp bufs \<noteq> Null) (end_bit a - begin_bit a)"
  by (simp add: segmented_radix_sort_impl_def query_storage_size_def Let_def split: prod.splits)

lemma impl_zero_segments:
  "temporary_storage a \<noteq> Null \<Longrightarrow> segments a = 0 \<Longrightarrow>
   segmented_radix_sort_impl cfg tp env d a bufs dev =
     \<lparr>status = hipSuccess, storage_size_out = storage_size a,
      result_in_output = is_result_in_output cfg (keys_tmp bufs \<noteq> Null) (end_bit a - begin_bit a),
      device_out = dev\<rparr>"
  by (simp add: segmented_radix_sort_impl_def Let_def)


subsection \<open>Parity of the pass count\<close>

lemma word_mod2_even: "((w::'a::len word) mod 2 = 0) \<longleftrightarrow> even (unat w)"
  by (metis even_iff_mod_2_eq_zero even_of_nat of_nat_unat ucast_id)

lemma word_pred_mod2: "(((w::'a::len word) - 1) mod 2 = 0) \<longleftrightarrow> odd (unat w)"
proof -
  have "((w - 1) mod 2 = 0) \<longleftrightarrow> even (w - 1)" by (simp add: even_iff_mod_2_eq_zero)
  also have "\<dots> \<longleftrightarrow> odd w" by simp
  also have "\<dots> \<longleftrightarrow> odd (unat w)" using word_mod2_even[of w] by (simp add: even_iff_mod_2_eq_zero)
  finally show ?thesis .
qed

lemma to_output_parity:
  "to_output cfg wdb bits = (wdb \<or> odd (unat (iterations cfg bits)))"
  by (simp add: to_output_def word_pred_mod2)

lemma is_result_in_output_parity:
  "is_result_in_output cfg wdb bits
     = (even (unat (iterations cfg bits)) \<noteq> to_output cfg wdb bits)"
  by (simp add: is_result_in_output_def word_mod2_even)

lemma odd_int_pred: "odd (n::nat) \<longleftrightarrow> even (int n - 1)"
  by simp

subsection \<open>What the kernels leave alone\<close>

lemma fold_preserves:
  assumes "\<And>x d. g (f x d) = g d"
  shows "g (fold f xs d) = g d"
  using assms by (induction xs arbitrary: d) simp_all

lemma digit_pass_frame:
  "index_mem (digit_pass descending lo hi b e src dst dev) = index_mem dev"
  "device_ops (digit_pass descending lo hi b e src dst dev) = device_ops dev"
  "console (digit_pass descending lo hi b e src dst dev) = console dev"
  by (simp_all add: digit_pass_def Let_def)

lemma radix_passes_frame:
  "index_mem (radix_passes descending bufs b e endb f t p ws dev) = index_mem dev"
  "device_ops (radix_passes descending bufs b e endb f t p ws dev) = device_ops dev"
  "console (radix_passes descending bufs b e endb f t p ws dev) = console dev"
  by (induction ws arbitrary: f t p dev; simp add: Let_def digit_pass_frame)+

lemma segmented_sort_frame:
  "index_mem (segmented_sort cfg descending args bo eo i dev) = index_mem dev"
  "device_ops (segmented_sort cfg descending args bo eo i dev) = device_ops dev"
  "console (segmented_sort cfg descending args bo eo i dev) = console dev"
  by (simp_all add: segmented_sort_def radix_passes_frame)

lemma segmented_sort_small_frame:
  "index_mem (segmented_sort_small descending args bo eo i dev) = index_mem dev"
  "device_ops (segmented_sort_small descending args bo eo i dev) = device_ops dev"
  "console (segmented_sort_small descending args bo eo i dev) = console dev"
  by (simp_all add: segmented_sort_small_def digit_pass_frame)

lemma run_kernel_frame:
  "index_mem (run_kernel cfg descending k grid args bo eo dev) = index_mem dev"
  "device_ops (run_kernel cfg descending k grid args bo eo dev) = device_ops dev"
  "console (run_kernel cfg descending k grid args bo eo dev) = console dev"
  by (cases k; simp add: run_kernel_def;
      rule fold_preserves; simp add: segmented_sort_frame segmented_sort_small_frame)+

lemma uniform_dispatch_cases:
  "uniform_dispatch cfg env d a wdb bufs dev =
    (let args = make_args bufs (to_output cfg wdb (end_bit a - begin_bit a)) 0 Null 0
                 (long_iterations cfg (end_bit a - begin_bit a))
                 (short_iterations cfg (end_bit a - begin_bit a)) (begin_bit a) (end_bit a);
         dev1 = dev\<lparr>device_ops := device_ops dev
                  @ [LaunchKernel segmented_sort_kernel (segments a) (sort_block_size cfg) args]\<rparr>
     in if hip_result env UniformLaunch \<noteq> hipSuccess then (hip_result env UniformLaunch, dev1)
        else if debug_synchronous a
        then (hip_result env UniformSync,
              (run_kernel cfg d segmented_sort_kernel (segments a) args (begin_offsets a)
                 (end_offsets a) dev1)
              \<lparr>console := console dev @ [(''segmented_sort'', unat (segments a))],
               device_ops := device_ops dev1 @ [StreamSynchronize]\<rparr>)
        else (hipSuccess,
              run_kernel cfg d segmented_sort_kernel (segments a) args (begin_offsets a)
                 (end_offsets a) dev1))"
  by (simp add: uniform_dispatch_def hip_sync_and_return_on_error_def hipLaunchKernelGGL_def
      Let_def run_kernel_frame)

subsection \<open>The storage-size query\<close>

lemma partition_query:
  "partition env Null sb out cnt n pred dev =
     (hip_result env PartitionQuery, partition_storage_required env,
      dev\<lparr>device_ops := device_ops dev @ [PartitionCall Null sb out cnt n]\<rparr>)"
  by (simp add: partition_def Let_def)

lemma query_storage_size_cases:
  "query_storage_size cfg tp env a bufs dev =
     (let s0 = (if keys_tmp bufs \<noteq> Null then 0 else keys_bytes tp a + values_bytes tp a);
          res = is_result_in_output cfg (keys_tmp bufs \<noteq> Null) (end_bit a - begin_bit a);
          dev1 = dev\<lparr>device_ops := device_ops dev
                   @ [PartitionCall Null 0 Null Null (segments a)]\<rparr>
      in if \<not> do_partitioning cfg (segments a)
         then \<lparr>status = hipSuccess, storage_size_out = (if s0 = 0 then 4 else s0),
               result_in_output = res, device_out = dev\<rparr>
         else if hip_result env PartitionQuery \<noteq> hipSuccess
         then \<lparr>status = hip_result env PartitionQuery,
               storage_size_out = s0 + (segment_indices_bytes tp a + large_segment_count_bytes tp),
               result_in_output = res, device_out = dev1\<rparr>
         else \<lparr>status = hipSuccess,
               storage_size_out =
                 (if s0 + (segment_indices_bytes tp a + large_segment_count_bytes tp)
                        + partition_storage_required env = 0 then 4
                  else s0 + (segment_indices_bytes tp a + large_segment_count_bytes tp)
                        + partition_storage_required env),
               result_in_output = res, device_out = dev1\<rparr>)"
  by (auto simp add: query_storage_size_def partition_query Let_def)


subsection \<open>The execute phase\<close>

lemma ptr_add_not_Null: "p \<noteq> Null \<Longrightarrow> ptr_add p n \<noteq> Null"
  by (cases p) simp_all

lemma carve_not_Null:
  assumes "temporary_storage a \<noteq> Null" and "carve tp a bufs = (bufs1, p1, p2, p3)"
  shows "p1 \<noteq> Null" "p2 \<noteq> Null" "p3 \<noteq> Null"
  using assms by (auto simp add: carve_def Let_def ptr_add_not_Null split: if_splits)

lemma partition_effect_frame:
  "keys_mem (partition_effect out cnt n pred dev) = keys_mem dev"
  "values_mem (partition_effect out cnt n pred dev) = values_mem dev"
  "device_ops (partition_effect out cnt n pred dev) = device_ops dev"
  "console (partition_effect out cnt n pred dev) = console dev"
  by (simp_all add: partition_effect_def Let_def)

lemma partition_run:
  "storage \<noteq> Null \<Longrightarrow>
   partition env storage sb out cnt n pred dev =
     (hip_result env PartitionRun, sb,
      if hip_result env PartitionRun = hipSuccess
      then partition_effect out cnt n pred
             (dev\<lparr>device_ops := device_ops dev @ [PartitionCall storage sb out cnt n]\<rparr>)
      else dev\<lparr>device_ops := device_ops dev @ [PartitionCall storage sb out cnt n]\<rparr>)"
  by (simp add: partition_def Let_def)

lemma impl_execute:
  assumes "temporary_storage a \<noteq> Null" and "segments a \<noteq> 0"
  shows "segmented_radix_sort_impl cfg tp env d a bufs dev =
     (let res = is_result_in_output cfg (keys_tmp bufs \<noteq> Null) (end_bit a - begin_bit a);
          dev1 = (if debug_synchronous a then debug_dump cfg a dev else dev)
      in if debug_synchronous a \<and> hip_result env DumpSync \<noteq> hipSuccess
         then \<lparr>status = hip_result env DumpSync, storage_size_out = storage_size a,
               result_in_output = res, device_out = dev1\<rparr>
         else \<lparr>status = fst (if do_partitioning cfg (segments a)
                   then partitioned_dispatch cfg env d a (keys_tmp bufs \<noteq> Null)
                          (fst (carve tp a bufs)) (fst (snd (carve tp a bufs)))
                          (fst (snd (snd (carve tp a bufs)))) (snd (snd (snd (carve tp a bufs))))
                          dev1
                   else uniform_dispatch cfg env d a (keys_tmp bufs \<noteq> Null)
                          (fst (carve tp a bufs)) dev1),
               storage_size_out = storage_size a, result_in_output = res,
               device_out = snd (if do_partitioning cfg (segments a)
                   then partitioned_dispatch cfg env d a (keys_tmp bufs \<noteq> Null)
                          (fst (carve tp a bufs)) (fst (snd (carve tp a bufs)))
                          (fst (snd (snd (carve tp a bufs)))) (snd (snd (snd (carve tp a bufs))))
                          dev1
                   else uniform_dispatch cfg env d a (keys_tmp bufs \<noteq> Null)
                          (fst (carve tp a bufs)) dev1)\<rparr>)"
  using assms
  by (simp add: segmented_radix_sort_impl_def Let_def split: prod.splits)

lemma partitioned_dispatch_partition_fails:
  assumes "ps \<noteq> Null" and "hip_result env PartitionRun \<noteq> hipSuccess"
  shows "partitioned_dispatch cfg env d a wdb bufs pi pc ps dev =
     (hip_result env PartitionRun,
      dev\<lparr>device_ops := device_ops dev
             @ [PartitionCall ps 0 pi pc (segments a)]\<rparr>)"
  using assms by (simp add: partitioned_dispatch_def partition_run Let_def)

lemma partitioned_dispatch_memcpy_fails:
  assumes "ps \<noteq> Null" and "hip_result env PartitionRun = hipSuccess"
    and "hip_result env CountMemcpy \<noteq> hipSuccess"
  shows "partitioned_dispatch cfg env d a wdb bufs pi pc ps dev =
     (hip_result env CountMemcpy,
      (partition_effect pi pc (segments a) (selector_of cfg a) dev)
        \<lparr>device_ops := device_ops dev
             @ [PartitionCall ps 0 pi pc (segments a), MemcpyDeviceToHost pc]\<rparr>)"
  using assms by (simp add: partitioned_dispatch_def partition_run Let_def partition_effect_def)

lemma partitioned_dispatch_sync_fails:
  assumes "ps \<noteq> Null" and "hip_result env PartitionRun = hipSuccess"
    and "hip_result env CountMemcpy = hipSuccess"
    and "hip_result env CountSync \<noteq> hipSuccess"
  shows "partitioned_dispatch cfg env d a wdb bufs pi pc ps dev =
     (hip_result env CountSync,
      (partition_effect pi pc (segments a) (selector_of cfg a) dev)
        \<lparr>device_ops := device_ops dev
             @ [PartitionCall ps 0 pi pc (segments a), MemcpyDeviceToHost pc,
                StreamSynchronize]\<rparr>)"
  using assms by (simp add: partitioned_dispatch_def partition_run Let_def partition_effect_def)

lemma launches_simps:
  "launches [] = []"
  "launches (xs @ ys) = launches xs @ launches ys"
  "launches (PartitionCall s n out c m # ops) = launches ops"
  "launches (MemcpyDeviceToHost p # ops) = launches ops"
  "launches (StreamSynchronize # ops) = launches ops"
  "launches (LaunchKernel k g b args # ops) = LaunchKernel k g b args # launches ops"
  by (simp_all add: launches_def)

lemma partition_calls_simps:
  "partition_calls [] = []"
  "partition_calls (xs @ ys) = partition_calls xs @ partition_calls ys"
  "partition_calls (PartitionCall s n out c m # ops) = PartitionCall s n out c m # partition_calls ops"
  "partition_calls (MemcpyDeviceToHost p # ops) = partition_calls ops"
  "partition_calls (StreamSynchronize # ops) = partition_calls ops"
  "partition_calls (LaunchKernel k g b args # ops) = partition_calls ops"
  by (simp_all add: partition_calls_def)

lemma debug_dump_frame:
  "keys_mem (debug_dump cfg a dev) = keys_mem dev"
  "values_mem (debug_dump cfg a dev) = values_mem dev"
  "index_mem (debug_dump cfg a dev) = index_mem dev"
  "launches (device_ops (debug_dump cfg a dev)) = launches (device_ops dev)"
  "partition_calls (device_ops (debug_dump cfg a dev)) = partition_calls (device_ops dev)"
  by (simp_all add: debug_dump_def Let_def launches_simps partition_calls_simps)


section \<open>Arithmetic of the radix pass schedule\<close>

lemma nat_ceiling_bounds:
  fixes a b :: nat
  assumes "0 < b"
  shows "a \<le> ((a + b - 1) div b) * b" and "((a + b - 1) div b) * b < a + b"
proof -
  define q r where "q = (a + b - 1) div b" and "r = (a + b - 1) mod b"
  have eq: "q * b + r = a + b - 1" unfolding q_def r_def by simp
  have r: "r < b" unfolding r_def using assms by simp
  from eq r assms show "a \<le> ((a + b - 1) div b) * b" unfolding q_def[symmetric] by linarith
  from eq r assms show "((a + b - 1) div b) * b < a + b" unfolding q_def[symmetric] by linarith
qed

lemma nat_ceiling_le:
  fixes a b :: nat
  assumes "0 < b"
  shows "(a + b - 1) div b \<le> a"
proof (cases "a = 0")
  case True
  with assms show ?thesis by simp
next
  case False
  have "(a + b - 1) div b * 1 \<le> (a + b - 1) div b * b" using assms by (intro mult_le_mono2) simp
  also have "\<dots> < a + b" using assms by (rule nat_ceiling_bounds(2))
  finally have lt: "(a + b - 1) div b < a + b" by simp
  show ?thesis
  proof (rule ccontr)
    assume "\<not> ?thesis"
    then have "Suc a \<le> (a + b - 1) div b" by simp
    then have "Suc a * b \<le> (a + b - 1) div b * b" by (rule mult_le_mono1)
    also have "\<dots> < a + b" using assms by (rule nat_ceiling_bounds(2))
    finally have "a * b + b < a + b" by simp
    then have "a * b < a * 1" by simp
    then have "b < 1" using False by (metis mult_less_cancel1)
    with assms show False by simp
  qed
qed

lemma unat_ceiling_div:
  fixes a b :: "'a::len word"
  assumes "b \<noteq> 0"
  shows "unat (ceiling_div a b) = (unat a + unat b - 1) div unat b"
proof -
  from assms have b: "0 < unat b" by (simp add: unat_gt_0)
  have "(unat a + unat b - 1) div unat b \<le> unat a" using b by (rule nat_ceiling_le)
  then show ?thesis
    unfolding ceiling_div_def by (rule le_unat_uoi)
qed

lemma unat_iterations_bounds:
  assumes "long_radix_bits cfg \<noteq> 0"
  shows "unat bits \<le> unat (iterations cfg bits) * unat (long_radix_bits cfg)"
    and "unat (iterations cfg bits) * unat (long_radix_bits cfg) < unat bits + unat (long_radix_bits cfg)"
proof -
  from assms have b: "0 < unat (long_radix_bits cfg)" by (simp add: unat_gt_0)
  show "unat bits \<le> unat (iterations cfg bits) * unat (long_radix_bits cfg)"
    unfolding iterations_def unat_ceiling_div[OF assms] using b by (rule nat_ceiling_bounds(1))
  show "unat (iterations cfg bits) * unat (long_radix_bits cfg) < unat bits + unat (long_radix_bits cfg)"
    unfolding iterations_def unat_ceiling_div[OF assms] using b by (rule nat_ceiling_bounds(2))
qed

lemma unat_excess:
  assumes "long_radix_bits cfg \<noteq> 0"
  shows "unat (long_radix_bits cfg * iterations cfg bits - bits)
         = unat (iterations cfg bits) * unat (long_radix_bits cfg) - unat bits"
proof -
  let ?l = "unat (long_radix_bits cfg)" and ?it = "unat (iterations cfg bits)" and ?b = "unat bits"
  have ge: "?b \<le> ?it * ?l" and lt: "?it * ?l < ?b + ?l"
    using unat_iterations_bounds[OF assms] by auto
  have "long_radix_bits cfg * iterations cfg bits - bits
        = (word_of_nat (?it * ?l) :: u32) - word_of_nat ?b"
    by (simp add: mult.commute)
  also have "\<dots> = word_of_nat (?it * ?l - ?b)" using ge by simp
  finally have eq: "long_radix_bits cfg * iterations cfg bits - bits = word_of_nat (?it * ?l - ?b)" .
  have "?it * ?l - ?b \<le> ?l" using lt by simp
  then have "unat (word_of_nat (?it * ?l - ?b) :: u32) = ?it * ?l - ?b" by (rule le_unat_uoi)
  with eq show ?thesis by simp
qed

lemma unat_radix_bits_diff:
  assumes "short_radix_bits cfg \<le> long_radix_bits cfg"
  shows "unat (radix_bits_diff cfg) = unat (long_radix_bits cfg) - unat (short_radix_bits cfg)"
  unfolding radix_bits_diff_def using assms by (rule unat_sub)

lemma unat_min_word: "unat (min (a::'a::len word) b) = min (unat a) (unat b)"
  by (simp add: min_def word_le_nat_alt)

lemma unat_short_iterations:
  assumes "long_radix_bits cfg \<noteq> 0" "short_radix_bits cfg \<le> long_radix_bits cfg"
  shows "unat (short_iterations cfg bits) =
     (if unat (long_radix_bits cfg) \<noteq> unat (short_radix_bits cfg)
      then min (unat (iterations cfg bits))
            ((unat (iterations cfg bits) * unat (long_radix_bits cfg) - unat bits)
              div (unat (long_radix_bits cfg) - unat (short_radix_bits cfg)))
      else 0)"
proof -
  have d0: "radix_bits_diff cfg \<noteq> 0 \<longleftrightarrow> unat (long_radix_bits cfg) \<noteq> unat (short_radix_bits cfg)"
  proof -
    have "radix_bits_diff cfg = 0 \<longleftrightarrow> long_radix_bits cfg = short_radix_bits cfg"
      unfolding radix_bits_diff_def by simp
    then show ?thesis by (simp add: word_unat_eq_iff)
  qed
  show ?thesis
    unfolding short_iterations_def d0
    by (simp add: unat_min_word unat_div unat_excess[OF assms(1)] unat_radix_bits_diff[OF assms(2)])
qed

lemma short_le_iterations: "short_iterations cfg bits \<le> iterations cfg bits"
  unfolding short_iterations_def by simp

lemma unat_long_iterations:
  "unat (long_iterations cfg bits) = unat (iterations cfg bits) - unat (short_iterations cfg bits)"
  unfolding long_iterations_def using short_le_iterations by (rule unat_sub)

lemma schedule_sum_plus:
  assumes "long_radix_bits cfg \<noteq> 0" "short_radix_bits cfg \<le> long_radix_bits cfg"
  shows "unat (long_iterations cfg bits) * unat (long_radix_bits cfg)
           + unat (short_iterations cfg bits) * unat (short_radix_bits cfg)
           + unat (short_iterations cfg bits)
               * (unat (long_radix_bits cfg) - unat (short_radix_bits cfg))
         = unat (iterations cfg bits) * unat (long_radix_bits cfg)"
proof -
  let ?l = "unat (long_radix_bits cfg)" and ?s = "unat (short_radix_bits cfg)"
  let ?it = "unat (iterations cfg bits)" and ?sh = "unat (short_iterations cfg bits)"
  have sl: "?s \<le> ?l" using assms(2) by (simp add: word_le_nat_alt)
  have shit: "?sh \<le> ?it" using short_le_iterations by (simp add: word_le_nat_alt)
  have "?sh * ?s + ?sh * (?l - ?s) = ?sh * ?l"
    using sl by (simp flip: distrib_left)
  moreover have "(?it - ?sh) * ?l + ?sh * ?l = ?it * ?l"
    using shit by (simp flip: distrib_right)
  ultimately show ?thesis by (simp add: unat_long_iterations)
qed

lemma short_shrink_le_excess:
  assumes "long_radix_bits cfg \<noteq> 0" "short_radix_bits cfg \<le> long_radix_bits cfg"
  shows "unat (short_iterations cfg bits)
           * (unat (long_radix_bits cfg) - unat (short_radix_bits cfg))
         \<le> unat (iterations cfg bits) * unat (long_radix_bits cfg) - unat bits"
proof (cases "unat (long_radix_bits cfg) = unat (short_radix_bits cfg)")
  case True
  then show ?thesis by simp
next
  case False
  let ?d = "unat (long_radix_bits cfg) - unat (short_radix_bits cfg)"
  let ?x = "unat (iterations cfg bits) * unat (long_radix_bits cfg) - unat bits"
  have "unat (short_iterations cfg bits) \<le> ?x div ?d"
    using False by (simp add: unat_short_iterations[OF assms])
  then have "unat (short_iterations cfg bits) * ?d \<le> ?x div ?d * ?d"
    by (rule mult_le_mono1)
  also have "\<dots> \<le> ?x" by simp
  finally show ?thesis .
qed


section \<open>Stable sorting by digits\<close>

lemma sorted_insort_lex:
  fixes upper lower comb :: "'a \<Rightarrow> nat"
  assumes lex: "\<And>x y. comb x \<le> comb y \<longleftrightarrow> upper x < upper y \<or> (upper x = upper y \<and> lower x \<le> lower y)"
    and "sorted (map comb ws)" and "\<forall>y\<in>set ws. lower z \<le> lower y"
  shows "sorted (map comb (insort_key upper z ws))"
  using assms(2,3)
proof (induction ws)
  case Nil
  then show ?case by simp
next
  case (Cons y ws)
  show ?case
  proof (cases "upper z \<le> upper y")
    case True
    have zy: "comb z \<le> comb y" using True Cons.prems(2) by (auto simp add: lex)
    have "\<forall>w\<in>set ws. comb y \<le> comb w" using Cons.prems(1) by simp
    with zy have "\<forall>w\<in>set (y # ws). comb z \<le> comb w" by (auto intro: order_trans)
    with Cons.prems(1) True show ?thesis by simp
  next
    case False
    then have yz: "comb y \<le> comb z" by (simp add: lex)
    have rest: "sorted (map comb (insort_key upper z ws))"
      using Cons.IH Cons.prems by simp
    have "\<forall>w\<in>set (insort_key upper z ws). comb y \<le> comb w"
      using yz Cons.prems(1) by (auto simp add: set_insort_key)
    with rest False show ?thesis by simp
  qed
qed

lemma sorted_sort_lex:
  fixes upper lower comb :: "'a \<Rightarrow> nat"
  assumes lex: "\<And>x y. comb x \<le> comb y \<longleftrightarrow> upper x < upper y \<or> (upper x = upper y \<and> lower x \<le> lower y)"
    and "sorted (map lower zs)"
  shows "sorted (map comb (sort_key upper zs))"
  using assms(2)
proof (induction zs)
  case Nil
  then show ?case by simp
next
  case (Cons z zs)
  have "sorted (map comb (sort_key upper zs))" using Cons by simp
  moreover have "\<forall>y\<in>set (sort_key upper zs). lower z \<le> lower y" using Cons.prems by simp
  ultimately show ?case
    using sorted_insort_lex[of comb upper lower "sort_key upper zs" z] lex by simp
qed

lemma sort_key_lex:
  fixes upper lower comb :: "'a \<Rightarrow> nat"
  assumes lex: "\<And>x y. comb x \<le> comb y \<longleftrightarrow> upper x < upper y \<or> (upper x = upper y \<and> lower x \<le> lower y)"
  shows "sort_key upper (sort_key lower xs) = sort_key comb xs"
proof (rule properties_for_sort_key[symmetric])
  show "mset (sort_key upper (sort_key lower xs)) = mset xs" by simp
next
  show "sorted (map comb (sort_key upper (sort_key lower xs)))"
    using lex by (rule sorted_sort_lex) (rule sorted_sort_key)
next
  fix k
  have eq: "comb k = comb x \<longleftrightarrow> upper x = upper k \<and> lower x = lower k" for x
  proof -
    have "comb k = comb x \<longleftrightarrow> comb k \<le> comb x \<and> comb x \<le> comb k" by auto
    also have "\<dots> \<longleftrightarrow> upper x = upper k \<and> lower x = lower k"
      unfolding lex by auto
    finally show ?thesis .
  qed
  have split: "filter (\<lambda>x. comb k = comb x) ys
      = filter (\<lambda>x. lower x = lower k) (filter (\<lambda>x. upper x = upper k) ys)" for ys
    unfolding filter_filter by (rule filter_cong) (simp_all add: eq)
  have swap: "filter (\<lambda>x. lower x = lower k) (filter (\<lambda>x. upper x = upper k) ys)
      = filter (\<lambda>x. upper x = upper k) (filter (\<lambda>x. lower x = lower k) ys)" for ys
    unfolding filter_filter by (rule filter_cong) auto
  have "filter (\<lambda>x. comb k = comb x) (sort_key upper (sort_key lower xs))
      = filter (\<lambda>x. lower x = lower k)
          (filter (\<lambda>x. upper x = upper k) (sort_key upper (sort_key lower xs)))"
    by (rule split)
  also have "\<dots> = filter (\<lambda>x. lower x = lower k)
          (filter (\<lambda>x. upper x = upper k) (sort_key lower xs))"
    by (simp only: sort_key_stable)
  also have "\<dots> = filter (\<lambda>x. upper x = upper k)
          (filter (\<lambda>x. lower x = lower k) (sort_key lower xs))"
    by (rule swap)
  also have "\<dots> = filter (\<lambda>x. upper x = upper k) (filter (\<lambda>x. lower x = lower k) xs)"
    by (simp only: sort_key_stable)
  also have "\<dots> = filter (\<lambda>x. lower x = lower k) (filter (\<lambda>x. upper x = upper k) xs)"
    by (rule swap[symmetric])
  also have "\<dots> = filter (\<lambda>x. comb k = comb x) xs"
    by (rule split[symmetric])
  finally show "filter (\<lambda>x. comb k = comb x) (sort_key upper (sort_key lower xs))
      = filter (\<lambda>x. comb k = comb x) xs" .
qed

lemma key_digit_less: "key_digit lo hi k < 2 ^ (hi - lo)"
  by (simp add: key_digit_def)

lemma key_digit_split:
  assumes "lo \<le> mid" and "mid \<le> hi"
  shows "key_digit lo hi k = key_digit mid hi k * 2 ^ (mid - lo) + key_digit lo mid k"
proof -
  define x where "x = unat k div 2 ^ lo"
  have mid: "unat k div 2 ^ mid = x div 2 ^ (mid - lo)"
  proof -
    have "(2::nat) ^ mid = 2 ^ lo * 2 ^ (mid - lo)" using assms(1) by (simp flip: power_add)
    then show ?thesis unfolding x_def by (simp add: div_mult2_eq)
  qed
  have hi: "(2::nat) ^ (hi - lo) = 2 ^ (mid - lo) * 2 ^ (hi - mid)"
    using assms by (simp flip: power_add)
  have "x mod (2 ^ (mid - lo) * 2 ^ (hi - mid))
        = 2 ^ (mid - lo) * (x div 2 ^ (mid - lo) mod 2 ^ (hi - mid)) + x mod 2 ^ (mid - lo)"
    by (rule mod_mult2_eq)
  then show ?thesis
    unfolding key_digit_def mid hi x_def[symmetric] by (simp add: mult.commute)
qed

lemma digit_rank_less: "digit_rank descending lo hi k < 2 ^ (hi - lo)"
  using key_digit_less[of lo hi k] by (simp add: digit_rank_def)

lemma digit_rank_empty: "hi \<le> lo \<Longrightarrow> digit_rank descending lo hi k = 0"
  by (simp add: digit_rank_def key_digit_def)

lemma digit_rank_split:
  assumes "lo \<le> mid" and "mid \<le> hi"
  shows "digit_rank descending lo hi k
         = digit_rank descending mid hi k * 2 ^ (mid - lo) + digit_rank descending lo mid k"
proof (cases descending)
  case False
  then show ?thesis using key_digit_split[OF assms] by (simp add: digit_rank_def)
next
  case True
  define U L m t where "U = key_digit mid hi k" and "L = key_digit lo mid k"
    and "m = (2::nat) ^ (mid - lo)" and "t = (2::nat) ^ (hi - mid)"
  have U: "U < t" and L: "L < m" unfolding U_def L_def m_def t_def by (rule key_digit_less)+
  have tm: "(2::nat) ^ (hi - lo) = t * m" unfolding t_def m_def using assms by (simp flip: power_add)
  have split: "key_digit lo hi k = U * m + L" unfolding U_def L_def m_def by (rule key_digit_split[OF assms])
  have "(t - 1 - U) * m + (m - 1 - L) + (U * m + L) + 1 = t * m"
  proof -
    have "(t - 1 - U) * m + U * m = (t - 1) * m" using U by (simp flip: distrib_right)
    moreover have "(t - 1) * m + m = t * m" using U by (cases t) simp_all
    moreover have "(m - 1 - L) + L + 1 = m" using L by simp
    ultimately show ?thesis by linarith
  qed
  then have "t * m - 1 - (U * m + L) = (t - 1 - U) * m + (m - 1 - L)" by linarith
  then show ?thesis
    using True unfolding digit_rank_def tm split U_def[symmetric] L_def[symmetric]
      m_def[symmetric] t_def[symmetric]
    by simp
qed

lemma lex_nat:
  fixes a b m :: nat
  assumes "a < m" and "b < m"
  shows "u * m + a \<le> v * m + b \<longleftrightarrow> u < v \<or> (u = v \<and> a \<le> b)"
proof (cases u v rule: linorder_cases)
  case less
  then have "Suc u \<le> v" by simp
  then have "Suc u * m \<le> v * m" by (rule mult_le_mono1)
  then have "u * m + m \<le> v * m" by simp
  with assms less show ?thesis by simp
next
  case equal
  then show ?thesis by simp
next
  case greater
  then have "Suc v \<le> u" by simp
  then have "Suc v * m \<le> u * m" by (rule mult_le_mono1)
  then have "v * m + m \<le> u * m" by simp
  with assms greater show ?thesis by simp
qed

lemma digit_rank_lex:
  assumes "lo \<le> mid" and "mid \<le> hi"
  shows "digit_rank d lo hi x \<le> digit_rank d lo hi y \<longleftrightarrow>
         digit_rank d mid hi x < digit_rank d mid hi y
         \<or> (digit_rank d mid hi x = digit_rank d mid hi y
            \<and> digit_rank d lo mid x \<le> digit_rank d lo mid y)"
  unfolding digit_rank_split[OF assms, of d x] digit_rank_split[OF assms, of d y]
  by (rule lex_nat) (rule digit_rank_less)+

lemma sort_digit_combine:
  assumes "lo \<le> mid" and "mid \<le> hi"
  shows "sort_key (\<lambda>p. digit_rank d mid hi (fst p)) (sort_key (\<lambda>p. digit_rank d lo mid (fst p)) xs)
         = sort_key (\<lambda>p. digit_rank d lo hi (fst p)) xs"
  by (rule sort_key_lex) (rule digit_rank_lex[OF assms])

lemma sort_digit_empty:
  "hi \<le> lo \<Longrightarrow> sort_key (\<lambda>p. digit_rank d lo hi (fst p)) xs = xs"
  by (simp add: digit_rank_empty sort_key_const)

lemma sort_passes_sort_key:
  "sort_passes d endb b ws xs
   = sort_key (\<lambda>p. digit_rank d b (min (b + sum_list ws) endb) (fst p)) xs"
proof (induction ws arbitrary: b xs)
  case Nil
  show ?case by (simp add: sort_digit_empty)
next
  case (Cons w ws)
  show ?case
  proof (cases "b + w \<le> endb")
    case True
    then have m: "min (b + w) endb = b + w" by simp
    have "b + w \<le> min (b + w + sum_list ws) endb" using True by simp
    then have "sort_key (\<lambda>p. digit_rank d (b + w) (min (b + w + sum_list ws) endb) (fst p))
            (sort_key (\<lambda>p. digit_rank d b (b + w) (fst p)) xs)
          = sort_key (\<lambda>p. digit_rank d b (min (b + w + sum_list ws) endb) (fst p)) xs"
      by (intro sort_digit_combine) simp_all
    then show ?thesis by (simp add: Cons.IH m add.assoc)
  next
    case False
    then have m: "min (b + w) endb = endb" "min (b + w + sum_list ws) endb = endb" by simp_all
    have "sort_key (\<lambda>p. digit_rank d (b + w) endb (fst p)) ys = ys" for ys :: "('a word \<times> 'b) list"
      using False by (intro sort_digit_empty) simp
    then show ?thesis by (simp add: Cons.IH m flip: add.assoc)
  qed
qed

lemma load_store_segment:
  "length xs = e - b \<Longrightarrow> load_segment (store_segment arr b xs) b e = xs"
  by (auto simp add: load_segment_def store_segment_def intro!: nth_equalityI)

lemma load_segment_cong:
  "(\<And>j. b \<le> j \<Longrightarrow> j < e \<Longrightarrow> f j = g j) \<Longrightarrow> load_segment f b e = load_segment g b e"
  by (simp add: load_segment_def)

lemma length_load_segment: "length (load_segment f b e) = e - b"
  by (simp add: load_segment_def)

lemma length_segment_pairs: "length (segment_pairs dev p b e) = e - b"
  by (simp add: segment_pairs_def length_load_segment)

lemma store_segment_outside:
  "\<not> (b \<le> j \<and> j < b + length xs) \<Longrightarrow> store_segment arr b xs j = arr j"
  by (auto simp add: store_segment_def)

lemma digit_pass_mem:
  "keys_mem (digit_pass d lo hi b e src dst dev) =
     (keys_mem dev)(fst dst := store_segment (keys_mem dev (fst dst)) b
        (map fst (sort_key (\<lambda>p. digit_rank d lo hi (fst p)) (segment_pairs dev src b e))))"
  "values_mem (digit_pass d lo hi b e src dst dev) =
     (values_mem dev)(snd dst := store_segment (values_mem dev (snd dst)) b
        (map snd (sort_key (\<lambda>p. digit_rank d lo hi (fst p)) (segment_pairs dev src b e))))"
  by (simp_all add: digit_pass_def Let_def segment_pairs_def)

lemma digit_pass_result:
  "segment_pairs (digit_pass d lo hi b e src dst dev) dst b e
   = sort_key (\<lambda>p. digit_rank d lo hi (fst p)) (segment_pairs dev src b e)"
  by (simp add: segment_pairs_def[of "digit_pass d lo hi b e src dst dev"] digit_pass_mem
      load_store_segment length_segment_pairs zip_map_fst_snd)

lemma digit_pass_outside:
  assumes "\<not> (b \<le> j \<and> j < e)"
  shows "keys_mem (digit_pass d lo hi b e src dst dev) p j = keys_mem dev p j"
    and "values_mem (digit_pass d lo hi b e src dst dev) p j = values_mem dev p j"
proof -
  have out: "\<not> (b \<le> j \<and> j < b + length (map f (sort_key g (segment_pairs dev src b e))))"
    for f :: "'a word \<times> 'b \<Rightarrow> 'c" and g :: "'a word \<times> 'b \<Rightarrow> nat"
    using assms by (auto simp add: length_segment_pairs)
  show "keys_mem (digit_pass d lo hi b e src dst dev) p j = keys_mem dev p j"
    by (simp add: digit_pass_mem store_segment_outside[OF out])
  show "values_mem (digit_pass d lo hi b e src dst dev) p j = values_mem dev p j"
    by (simp add: digit_pass_mem store_segment_outside[OF out])
qed

lemma radix_passes_outside:
  assumes "\<not> (b \<le> j \<and> j < e)"
  shows "keys_mem (radix_passes d bufs b e endb f t p ws dev) q j = keys_mem dev q j
       \<and> values_mem (radix_passes d bufs b e endb f t p ws dev) q j = values_mem dev q j"
  by (induction ws arbitrary: f t p dev) (simp_all add: Let_def digit_pass_outside[OF assms])

lemma radix_passes_result:
  assumes "ws \<noteq> []"
  shows "segment_pairs (radix_passes d bufs b e endb first to_out p ws dev)
           (if to_out = odd (length ws) then output_of bufs else tmp_of bufs) b e
         = sort_passes d endb p ws
             (segment_pairs dev
                (if first then input_of bufs else if to_out then tmp_of bufs else output_of bufs)
                b e)"
  using assms
proof (induction ws arbitrary: first to_out p dev)
  case Nil
  then show ?case by simp
next
  case (Cons w ws)
  let ?src = "if first then input_of bufs else if to_out then tmp_of bufs else output_of bufs"
  let ?dst = "if to_out then output_of bufs else tmp_of bufs"
  let ?dev1 = "digit_pass d p (min (p + w) endb) b e ?src ?dst dev"
  have step: "radix_passes d bufs b e endb first to_out p (w # ws) dev
              = radix_passes d bufs b e endb False (\<not> to_out) (p + w) ws ?dev1"
    by (simp add: Let_def input_of_def tmp_of_def output_of_def)
  have one: "segment_pairs ?dev1 ?dst b e
             = sort_key (\<lambda>x. digit_rank d p (min (p + w) endb) (fst x)) (segment_pairs dev ?src b e)"
    by (rule digit_pass_result)
  show ?case
  proof (cases "ws = []")
    case True
    with one show ?thesis unfolding step by simp
  next
    case False
    have "segment_pairs (radix_passes d bufs b e endb False (\<not> to_out) (p + w) ws ?dev1)
           (if (\<not> to_out) = odd (length ws) then output_of bufs else tmp_of bufs) b e
         = sort_passes d endb (p + w) ws
             (segment_pairs ?dev1
                (if False then input_of bufs else if \<not> to_out then tmp_of bufs else output_of bufs)
                b e)"
      by (rule Cons.IH[OF False])
    moreover have "(if False then input_of bufs else if \<not> to_out then tmp_of bufs else output_of bufs)
                   = ?dst" by simp
    moreover have "((\<not> to_out) = odd (length ws)) = (to_out = odd (length (w # ws)))" by auto
    ultimately show ?thesis unfolding step using one by simp
  qed
qed

lemma segment_pairs_cong:
  assumes "\<And>j. b \<le> j \<Longrightarrow> j < e \<Longrightarrow>
              keys_mem dev' (fst p) j = keys_mem dev (fst p) j
              \<and> values_mem dev' (snd p) j = values_mem dev (snd p) j"
  shows "segment_pairs dev' p b e = segment_pairs dev p b e"
  unfolding segment_pairs_def
  using assms by (simp add: load_segment_cong[of b e "keys_mem dev' (fst p)" "keys_mem dev (fst p)"]
      load_segment_cong[of b e "values_mem dev' (snd p)" "values_mem dev (snd p)"])

lemma fold_outside:
  fixes op :: "nat \<Rightarrow> ('k, 'v) device \<Rightarrow> ('k, 'v) device"
  assumes frame: "\<And>i dev q j. \<not> in_segment bo eo i j \<Longrightarrow>
            keys_mem (op i dev) q j = keys_mem dev q j
            \<and> values_mem (op i dev) q j = values_mem dev q j"
    and "\<forall>i\<in>set is. \<not> in_segment bo eo i j"
  shows "keys_mem (fold op is dev) q j = keys_mem dev q j
       \<and> values_mem (fold op is dev) q' j = values_mem dev q' j"
  using assms(2)
proof (induction "is" arbitrary: dev)
  case Nil
  then show ?case by simp
next
  case (Cons i "is")
  then show ?case using frame[of i j dev q] frame[of i j dev q'] by simp
qed

lemma fold_segments:
  fixes op :: "nat \<Rightarrow> ('k, 'v) device \<Rightarrow> ('k, 'v) device"
  assumes frame: "\<And>i dev q j. \<not> in_segment bo eo i j \<Longrightarrow>
            keys_mem (op i dev) q j = keys_mem dev q j
            \<and> values_mem (op i dev) q j = values_mem dev q j"
    and result: "\<And>i dev. segment_pairs (op i dev) res (unat (bo i)) (unat (eo i))
                   = S (segment_pairs dev inp (unat (bo i)) (unat (eo i)))"
    and disjoint: "\<forall>i\<in>set is. \<forall>i'\<in>set is. i \<noteq> i' \<longrightarrow>
                     (\<forall>j. \<not> (in_segment bo eo i j \<and> in_segment bo eo i' j))"
    and "distinct is" and "i \<in> set is"
  shows "segment_pairs (fold op is dev) res (unat (bo i)) (unat (eo i))
         = S (segment_pairs dev inp (unat (bo i)) (unat (eo i)))"
  using assms(3,4,5)
proof (induction "is" arbitrary: dev)
  case Nil
  then show ?case by simp
next
  case (Cons x xs)
  have dis: "\<forall>i\<in>set xs. \<forall>i'\<in>set xs. i \<noteq> i' \<longrightarrow>
                     (\<forall>j. \<not> (in_segment bo eo i j \<and> in_segment bo eo i' j))"
    using Cons.prems(1) by simp
  have dxs: "distinct xs" and xnot: "x \<notin> set xs" using Cons.prems(2) by simp_all
  show ?case
  proof (cases "i = x")
    case True
    have others: "\<forall>i'\<in>set xs. \<not> in_segment bo eo i' j" if "in_segment bo eo x j" for j
      using Cons.prems(1) xnot that by auto
    have "segment_pairs (fold op xs (op x dev)) res (unat (bo x)) (unat (eo x))
          = segment_pairs (op x dev) res (unat (bo x)) (unat (eo x))"
    proof (rule segment_pairs_cong)
      fix j assume "unat (bo x) \<le> j" "j < unat (eo x)"
      then have "in_segment bo eo x j" by (simp add: in_segment_def)
      then have "\<forall>i'\<in>set xs. \<not> in_segment bo eo i' j" by (rule others)
      with frame show "keys_mem (fold op xs (op x dev)) (fst res) j = keys_mem (op x dev) (fst res) j
          \<and> values_mem (fold op xs (op x dev)) (snd res) j = values_mem (op x dev) (snd res) j"
        by (rule fold_outside)
    qed
    with True show ?thesis by (simp add: result)
  next
    case False
    with Cons.prems(3) have ixs: "i \<in> set xs" by simp
    have "segment_pairs (fold op xs (op x dev)) res (unat (bo i)) (unat (eo i))
          = S (segment_pairs (op x dev) inp (unat (bo i)) (unat (eo i)))"
      using dis dxs ixs by (rule Cons.IH)
    moreover have "segment_pairs (op x dev) inp (unat (bo i)) (unat (eo i))
          = segment_pairs dev inp (unat (bo i)) (unat (eo i))"
    proof (rule segment_pairs_cong)
      fix j assume "unat (bo i) \<le> j" "j < unat (eo i)"
      then have "in_segment bo eo i j" by (simp add: in_segment_def)
      then have "\<not> in_segment bo eo x j" using Cons.prems(1) False ixs by auto
      then show "keys_mem (op x dev) (fst inp) j = keys_mem dev (fst inp) j
          \<and> values_mem (op x dev) (snd inp) j = values_mem dev (snd inp) j"
        using frame[of x j dev "fst inp"] frame[of x j dev "snd inp"] by simp
    qed
    ultimately show ?thesis by simp
  qed
qed

lemma make_args_simps:
  "input_of (make_args bufs t n idx first li si bb eb) = input_of bufs"
  "tmp_of (make_args bufs t n idx first li si bb eb) = tmp_of bufs"
  "output_of (make_args bufs t n idx first li si bb eb) = output_of bufs"
  "k_to_output (make_args bufs t n idx first li si bb eb) = t"
  "k_num_segments (make_args bufs t n idx first li si bb eb) = n"
  "k_segment_indices (make_args bufs t n idx first li si bb eb) = idx"
  "k_segment_indices_first (make_args bufs t n idx first li si bb eb) = first"
  "k_long_iterations (make_args bufs t n idx first li si bb eb) = li"
  "k_short_iterations (make_args bufs t n idx first li si bb eb) = si"
  "k_begin_bit (make_args bufs t n idx first li si bb eb) = bb"
  "k_end_bit (make_args bufs t n idx first li si bb eb) = eb"
  by (simp_all add: make_args_def input_of_def tmp_of_def output_of_def)

lemma schedule_covers:
  assumes "long_radix_bits cfg \<noteq> 0" and "short_radix_bits cfg \<le> long_radix_bits cfg"
  shows "unat bits \<le> unat (long_iterations cfg bits) * unat (long_radix_bits cfg)
            + unat (short_iterations cfg bits) * unat (short_radix_bits cfg)"
  using unat_iterations_bounds(1)[OF assms(1), of bits] schedule_sum_plus[OF assms, of bits]
    short_shrink_le_excess[OF assms, of bits]
  by linarith

lemma schedule_length:
  "unat (long_iterations cfg bits) + unat (short_iterations cfg bits) = unat (iterations cfg bits)"
  using short_le_iterations[of cfg bits] by (simp add: unat_long_iterations word_le_nat_alt)

lemma iterations_pos:
  assumes "long_radix_bits cfg \<noteq> 0" and "bits \<noteq> 0"
  shows "0 < unat (iterations cfg bits)"
proof (rule ccontr)
  assume "\<not> 0 < unat (iterations cfg bits)"
  then have "unat (iterations cfg bits) = 0" by simp
  with unat_iterations_bounds(1)[OF assms(1), of bits] have "unat bits = 0" by simp
  with assms(2) show False by (simp add: unat_eq_0)
qed

lemma result_location:
  "(to_output cfg wdb bits = odd (unat (iterations cfg bits))) = is_result_in_output cfg wdb bits"
  unfolding is_result_in_output_parity to_output_parity by auto

lemma segmented_sort_result:
  assumes cfg: "long_radix_bits cfg \<noteq> 0" "short_radix_bits cfg \<le> long_radix_bits cfg"
    and bits: "bb < eb"
  shows "segment_pairs
           (segmented_sort cfg d
              (make_args bufs (to_output cfg wdb (eb - bb)) n idx first
                 (long_iterations cfg (eb - bb)) (short_iterations cfg (eb - bb)) bb eb)
              bo eo i dev)
           (result_of bufs (is_result_in_output cfg wdb (eb - bb)))
           (unat (bo i)) (unat (eo i))
         = sort_key (\<lambda>p. digit_rank d (unat bb) (unat eb) (fst p))
             (segment_pairs dev (input_of bufs) (unat (bo i)) (unat (eo i)))"
proof -
  let ?bits = "eb - bb"
  let ?args = "make_args bufs (to_output cfg wdb ?bits) n idx first
                 (long_iterations cfg ?bits) (short_iterations cfg ?bits) bb eb"
  let ?ws = "pass_widths cfg ?args"
  have ub: "unat ?bits = unat eb - unat bb" using bits by (simp add: unat_sub)
  have lt: "unat bb < unat eb" using bits by (simp add: word_less_nat_alt)
  have nz: "?bits \<noteq> 0" using bits by simp
  have len: "length ?ws = unat (iterations cfg ?bits)"
    by (simp add: pass_widths_def make_args_simps schedule_length)
  have ne: "?ws \<noteq> []" using iterations_pos[OF cfg(1) nz] len by auto
  have sum: "sum_list ?ws = unat (long_iterations cfg ?bits) * unat (long_radix_bits cfg)
            + unat (short_iterations cfg ?bits) * unat (short_radix_bits cfg)"
    by (simp add: pass_widths_def make_args_simps sum_list_replicate)
  have cover: "min (unat bb + sum_list ?ws) (unat eb) = unat eb"
    using schedule_covers[OF cfg, of ?bits] ub lt unfolding sum by simp
  have "segment_pairs
          (radix_passes d ?args (unat (bo i)) (unat (eo i)) (unat eb) True
             (to_output cfg wdb ?bits) (unat bb) ?ws dev)
          (if to_output cfg wdb ?bits = odd (length ?ws) then output_of ?args else tmp_of ?args)
          (unat (bo i)) (unat (eo i))
        = sort_passes d (unat eb) (unat bb) ?ws
            (segment_pairs dev
               (if True then input_of ?args
                else if to_output cfg wdb ?bits then tmp_of ?args else output_of ?args)
               (unat (bo i)) (unat (eo i)))"
    using ne by (rule radix_passes_result)
  then show ?thesis
    unfolding segmented_sort_def len result_location sort_passes_sort_key cover
    by (cases "is_result_in_output cfg wdb (eb - bb)") (simp_all add: make_args_simps result_of_def)
qed

lemma segmented_sort_outside:
  assumes "\<not> in_segment bo eo i j"
  shows "keys_mem (segmented_sort cfg d args bo eo i dev) q j = keys_mem dev q j
       \<and> values_mem (segmented_sort cfg d args bo eo i dev) q j = values_mem dev q j"
  unfolding segmented_sort_def
  using assms by (intro radix_passes_outside) (simp add: in_segment_def)

lemma segmented_sort_small_result:
  "segment_pairs
     (segmented_sort_small d (make_args bufs res n idx first li si bb eb) bo eo i dev)
     (result_of bufs res) (unat (bo i)) (unat (eo i))
   = sort_key (\<lambda>p. digit_rank d (unat bb) (unat eb) (fst p))
       (segment_pairs dev (input_of bufs) (unat (bo i)) (unat (eo i)))"
  unfolding segmented_sort_small_def
  using digit_pass_result[of d "unat bb" "unat eb" "unat (bo i)" "unat (eo i)" "input_of bufs"
      "result_of bufs res" dev]
  by (cases res) (simp_all add: result_of_def input_of_def output_of_def tmp_of_def make_args_def)

lemma segmented_sort_small_outside:
  assumes "\<not> in_segment bo eo i j"
  shows "keys_mem (segmented_sort_small d args bo eo i dev) q j = keys_mem dev q j
       \<and> values_mem (segmented_sort_small d args bo eo i dev) q j = values_mem dev q j"
proof -
  have out: "\<not> (unat (bo i) \<le> j \<and> j < unat (eo i))"
    using assms by (simp add: in_segment_def)
  show ?thesis
    unfolding segmented_sort_small_def by (simp add: digit_pass_outside[OF out])
qed

section \<open>Kernels, partition and storage regions\<close>

lemma fold_read:
  assumes "\<And>y d. g (f y d) = g d"
  shows "fold (\<lambda>x d. f (g d x) d) xs dev = fold f (map (g dev) xs) dev"
proof (induction xs arbitrary: dev)
  case Nil
  show ?case by simp
next
  case (Cons x xs)
  have "fold (\<lambda>x d. f (g d x) d) xs (f (g dev x) dev)
        = fold f (map (g (f (g dev x) dev)) xs) (f (g dev x) dev)"
    by (rule Cons.IH)
  then show ?case by (simp add: assms)
qed

lemma fold_guarded:
  "fold (\<lambda>w d. if w < n then h w d else d) [0..<G] dev = fold h [0..<min n G] dev"
proof -
  have split: "[0..<G] = [0..<min n G] @ [min n G..<G]"
    by (metis le_add_diff_inverse min.cobounded2 upt_add_eq_append zero_le)
  have tail: "fold (\<lambda>w d. if w < n then h w d else d) ws d = d" if "\<forall>w\<in>set ws. \<not> w < n" for ws d
    using that by (induction ws arbitrary: d) simp_all
  have head: "fold (\<lambda>w d. if w < n then h w d else d) ws d = fold h ws d" if "\<forall>w\<in>set ws. w < n" for ws d
    using that by (induction ws arbitrary: d) simp_all
  have "fold (\<lambda>w d. if w < n then h w d else d) [0..<G] dev
        = fold (\<lambda>w d. if w < n then h w d else d) [min n G..<G]
            (fold (\<lambda>w d. if w < n then h w d else d) [0..<min n G] dev)"
    by (subst split) simp
  also have "\<dots> = fold (\<lambda>w d. if w < n then h w d else d) [0..<min n G] dev"
    by (rule tail) auto
  also have "\<dots> = fold h [0..<min n G] dev"
    by (rule head) auto
  finally show ?thesis .
qed

lemma segment_index_at_frame:
  "segment_index_at (segmented_sort cfg d args' bo eo i dev) args = segment_index_at dev args"
  "segment_index_at (segmented_sort_small d args' bo eo i dev) args = segment_index_at dev args"
  by (rule ext, simp add: segment_index_at_def segmented_sort_frame segmented_sort_small_frame)+

lemma run_uniform:
  "run_kernel cfg d segmented_sort_kernel grid args bo eo dev
   = fold (segmented_sort cfg d args bo eo) [0..<unat grid] dev"
  by (simp add: run_kernel_def)

lemma run_large:
  "run_kernel cfg d segmented_sort_large_kernel grid args bo eo dev
   = fold (segmented_sort cfg d args bo eo)
       (map (segment_index_at dev args) [0..<unat grid]) dev"
  unfolding run_kernel_def kernel.case
  by (rule fold_read[where f="segmented_sort cfg d args bo eo"
        and g="\<lambda>d. segment_index_at d args"]) (rule segment_index_at_frame)

lemma run_small:
  "run_kernel cfg d segmented_sort_small_kernel grid args bo eo dev
   = fold (segmented_sort_small d args bo eo)
       (map (segment_index_at dev args)
          [0..<min (unat (k_num_segments args)) (unat grid * unat (small_segments_per_block cfg))])
       dev"
proof -
  have "fold (\<lambda>w da. if w < unat (k_num_segments args)
                then segmented_sort_small d args bo eo (segment_index_at da args w) da else da)
          [0..<unat grid * unat (small_segments_per_block cfg)] dev
        = fold (\<lambda>w da. segmented_sort_small d args bo eo (segment_index_at da args w) da)
          [0..<min (unat (k_num_segments args)) (unat grid * unat (small_segments_per_block cfg))] dev"
    by (rule fold_guarded)
  also have "\<dots> = fold (segmented_sort_small d args bo eo)
       (map (segment_index_at dev args)
          [0..<min (unat (k_num_segments args)) (unat grid * unat (small_segments_per_block cfg))])
       dev"
    by (rule fold_read[where f="segmented_sort_small d args bo eo"
        and g="\<lambda>d. segment_index_at d args"]) (rule segment_index_at_frame)
  finally show ?thesis by (simp add: run_kernel_def)
qed

lemma map_unat_filter_indices:
  fixes n :: u32
  shows "map unat (filter P (map (word_of_nat :: nat \<Rightarrow> u32) [0..<unat n]))
         = filter (\<lambda>i. P (word_of_nat i)) [0..<unat n]"
proof -
  have "map (\<lambda>x. unat (word_of_nat x :: u32)) ys = ys" if "\<forall>y\<in>set ys. y < unat n" for ys
    using that
  proof (induction ys)
    case Nil
    show ?case by simp
  next
    case (Cons y ys)
    then have "y \<le> unat n" by simp
    then have "unat (word_of_nat y :: u32) = y" by (rule le_unat_uoi)
    with Cons show ?case by simp
  qed
  then have "map (\<lambda>x. unat (word_of_nat x :: u32))
               (filter (\<lambda>i. P (word_of_nat i)) [0..<unat n])
             = filter (\<lambda>i. P (word_of_nat i)) [0..<unat n]"
    by simp
  then show ?thesis by (simp add: filter_map comp_def)
qed

lemma length_indices:
  "length (large_indices cfg a) + length (small_indices cfg a) = unat (segments a)"
  unfolding large_indices_def small_indices_def
  using sum_length_filter_compl[of "\<lambda>i. selector_of cfg a (word_of_nat i)" "[0..<unat (segments a)]"]
  by simp

lemma set_indices:
  "set (large_indices cfg a @ small_indices cfg a) = {0..<unat (segments a)}"
  by (auto simp add: large_indices_def small_indices_def)

lemma distinct_indices: "distinct (large_indices cfg a @ small_indices cfg a)"
  by (auto simp add: large_indices_def small_indices_def)

lemma partition_effect_indices:
  assumes "pi \<noteq> pc"
  shows "map (\<lambda>j. unat (index_mem (partition_effect pi pc (segments a) (selector_of cfg a) dev) pi j))
           [0..<unat (segments a)]
         = large_indices cfg a @ small_indices cfg a"
proof -
  let ?input = "map word_of_nat [0..<unat (segments a)] :: u32 list"
  let ?L = "filter (selector_of cfg a) ?input"
  let ?S = "filter (\<lambda>i. \<not> selector_of cfg a i) ?input"
  have len: "length (?L @ ?S) = unat (segments a)"
    using sum_length_filter_compl[of "selector_of cfg a" ?input] by simp
  have mem: "index_mem (partition_effect pi pc (segments a) (selector_of cfg a) dev) pi
             = store_segment (index_mem dev pi) 0 (?L @ ?S)"
    using assms by (simp add: partition_effect_def Let_def)
  have read: "map (\<lambda>j. unat (store_segment arr 0 zs j)) [0..<length zs] = map unat zs"
    for arr and zs :: "u32 list"
    by (intro nth_equalityI) (simp_all add: store_segment_def)
  have "map (\<lambda>j. unat (store_segment (index_mem dev pi) 0 (?L @ ?S) j)) [0..<unat (segments a)]
        = map unat (?L @ ?S)"
    using read[of "index_mem dev pi" "?L @ ?S"] unfolding len .
  also have "\<dots> = large_indices cfg a @ small_indices cfg a"
    by (simp add: large_indices_def small_indices_def map_unat_filter_indices)
  finally show ?thesis unfolding mem .
qed

lemma partition_effect_count:
  "index_mem (partition_effect pi pc (segments a) (selector_of cfg a) dev) pc 0
   = word_of_nat (length (large_indices cfg a))"
proof -
  have "length (filter (selector_of cfg a) (map word_of_nat [0..<unat (segments a)]))
        = length (large_indices cfg a)"
    using arg_cong[OF map_unat_filter_indices[of "selector_of cfg a" "segments a"], of length]
    by (simp add: large_indices_def)
  then show ?thesis by (simp add: partition_effect_def Let_def store_segment_def)
qed

lemma unat_large_count:
  "unat (word_of_nat (length (large_indices cfg a)) :: u32) = length (large_indices cfg a)"
  using length_indices[of cfg a] by (intro le_unat_uoi[of _ "segments a"]) simp

lemma unat_small_count:
  "unat (segments a - word_of_nat (length (large_indices cfg a)))
   = length (small_indices cfg a)"
proof -
  have le: "(word_of_nat (length (large_indices cfg a)) :: u32) \<le> segments a"
    using length_indices[of cfg a] by (simp add: word_le_nat_alt unat_large_count)
  show ?thesis
    using length_indices[of cfg a] by (simp add: unat_sub[OF le] unat_large_count)
qed

lemma map_upt_take:
  assumes "map f [0..<n] = xs @ ys"
  shows "map f [0..<length xs] = xs"
    and "map (\<lambda>j. f (length xs + j)) [0..<length ys] = ys"
proof -
  have n: "n = length xs + length ys" using arg_cong[OF assms, of length] by simp
  have "map f [0..<length xs] = take (length xs) (map f [0..<n])"
    unfolding take_map using n by simp
  then show "map f [0..<length xs] = xs" using assms by simp
  have "map (\<lambda>j. f (length xs + j)) [0..<length ys]
        = map f (map (\<lambda>j. j + length xs) [0..<length ys])"
    by (simp add: add.commute)
  also have "\<dots> = map f [length xs..<length xs + length ys]"
    by (simp only: map_add_upt add.commute)
  also have "\<dots> = drop (length xs) (map f [0..<n])"
    unfolding drop_map using n by simp
  finally show "map (\<lambda>j. f (length xs + j)) [0..<length ys] = ys" using assms by simp
qed

lemma unat_align_size_ge:
  assumes "alignment tp \<noteq> 0" and "unat n + unat (alignment tp) \<le> 2 ^ 64"
  shows "unat n \<le> unat (align_size tp n)"
proof -
  let ?al = "unat (alignment tp)"
  let ?c = "(unat n + ?al - 1) div ?al"
  have al: "0 < ?al" using assms(1) by (simp add: unat_gt_0)
  have c: "unat (ceiling_div n (alignment tp)) = ?c" using assms(1) by (rule unat_ceiling_div)
  have lt: "?c * ?al < unat n + ?al" using al by (rule nat_ceiling_bounds(2))
  then have "unat (ceiling_div n (alignment tp)) * unat (alignment tp) < 2 ^ LENGTH(64)"
    unfolding c using assms(2) by simp
  then have "unat (ceiling_div n (alignment tp) * alignment tp)
             = unat (ceiling_div n (alignment tp)) * unat (alignment tp)"
    by (rule unat_mult_lem[THEN iffD1])
  then have "unat (ceiling_div n (alignment tp) * alignment tp) = ?c * ?al"
    unfolding c .
  moreover have "unat n \<le> ?c * ?al" using al by (rule nat_ceiling_bounds(1))
  ultimately show ?thesis by (simp add: align_size_def)
qed

lemma unat_segment_bytes: "unat (ucast (n :: u32) * (4 :: size_t)) = 4 * unat n"
proof -
  have n32: "unat n < 2 ^ 32" using unsigned_less[of n] by simp
  have "unat (ucast n :: size_t) = take_bit LENGTH(64) (unat n)" by (rule unsigned_ucast_eq)
  also have "\<dots> = unat n"
  proof (rule take_bit_nat_eq_self)
    have "(2::nat) ^ 32 \<le> 2 ^ LENGTH(64)" by simp
    with n32 show "unat n < 2 ^ LENGTH(64)" by linarith
  qed
  finally have u: "unat (ucast n :: size_t) = unat n" .
  moreover note n32
  ultimately have "unat (ucast n :: size_t) * unat (4 :: size_t) < 2 ^ LENGTH(64)" by simp
  then have "unat (ucast n * (4 :: size_t)) = unat (ucast n :: size_t) * unat (4 :: size_t)"
    by (rule unat_mult_lem[THEN iffD1])
  then show ?thesis by (simp add: u)
qed

lemma segment_indices_bytes_nonzero:
  assumes "alignment tp \<noteq> 0" and "unat (alignment tp) \<le> 2 ^ 32" and "segments a \<noteq> 0"
  shows "unat (segment_indices_bytes tp a) \<noteq> 0"
proof -
  have s: "unat (segments a) < 2 ^ 32" using unsigned_less[of "segments a"] by simp
  have "unat (ucast (segments a) * (4 :: size_t)) + unat (alignment tp) \<le> 2 ^ 64"
    unfolding unat_segment_bytes using s assms(2) by simp
  then have "unat (ucast (segments a) * (4 :: size_t)) \<le> unat (segment_indices_bytes tp a)"
    unfolding segment_indices_bytes_def by (rule unat_align_size_ge[OF assms(1)])
  moreover have "0 < unat (segments a)" using assms(3) by (simp add: unat_gt_0)
  ultimately show ?thesis unfolding unat_segment_bytes by simp
qed

lemma carve_index_ptrs:
  assumes "temporary_storage a \<noteq> Null" and "unat (segment_indices_bytes tp a) \<noteq> 0"
  shows "fst (snd (carve tp a bufs)) \<noteq> fst (snd (snd (carve tp a bufs)))"
proof -
  obtain x off where ts: "temporary_storage a = Ptr x off"
    using assms(1) by (cases "temporary_storage a") auto
  show ?thesis
    using assms(2) by (simp add: carve_def Let_def ts split: if_splits)
qed

section \<open>The dispatches sort every segment\<close>

lemma disjoint_on_subset: "disjoint_on a I \<Longrightarrow> J \<subseteq> I \<Longrightarrow> disjoint_on a J"
  unfolding disjoint_on_def by blast

lemma sorted_on_fold:
  fixes op :: "nat \<Rightarrow> ('k::len word, 'v) device \<Rightarrow> ('k word, 'v) device"
  assumes frame: "\<And>i dev q j. \<not> in_segment (begin_offsets a) (end_offsets a) i j \<Longrightarrow>
            keys_mem (op i dev) q j = keys_mem dev q j
            \<and> values_mem (op i dev) q j = values_mem dev q j"
    and result: "\<And>i dev. segment_pairs (op i dev) res
                     (unat (begin_offsets a i)) (unat (end_offsets a i))
                   = sort_key (\<lambda>p. digit_rank d (unat (begin_bit a)) (unat (end_bit a)) (fst p))
                       (segment_pairs dev inp (unat (begin_offsets a i)) (unat (end_offsets a i)))"
    and dis: "disjoint_on a (set is)" and "distinct is"
  shows "sorted_on d a (set is) inp res dev (fold op is dev)"
  unfolding sorted_on_def
proof (intro conjI ballI allI impI)
  fix i assume "i \<in> set is"
  with dis assms(4)
  show "segment_pairs (fold op is dev) res (unat (begin_offsets a i)) (unat (end_offsets a i))
              = sort_key (\<lambda>p. digit_rank d (unat (begin_bit a)) (unat (end_bit a)) (fst p))
                  (segment_pairs dev inp (unat (begin_offsets a i)) (unat (end_offsets a i)))"
    unfolding disjoint_on_def
    by (intro fold_segments[where op=op and bo="begin_offsets a" and eo="end_offsets a"]
        frame result) auto
next
  fix q q' j assume out: "\<forall>i\<in>set is. \<not> in_segment (begin_offsets a) (end_offsets a) i j"
  show "keys_mem (fold op is dev) q j = keys_mem dev q j"
    using fold_outside[where op=op and bo="begin_offsets a" and eo="end_offsets a", OF frame out]
    by simp
  show "values_mem (fold op is dev) q' j = values_mem dev q' j"
    using fold_outside[where op=op and bo="begin_offsets a" and eo="end_offsets a", OF frame out]
    by simp
qed

lemma sorted_on_empty:
  assumes "keys_mem dev' = keys_mem dev" and "values_mem dev' = values_mem dev"
  shows "sorted_on d a {} inp res dev dev'"
  using assms by (simp add: sorted_on_def)

lemma sorted_on_cong:
  assumes "sorted_on d a I inp res dev dev'"
    and "keys_mem dev1 = keys_mem dev" "values_mem dev1 = values_mem dev"
    and "keys_mem dev1' = keys_mem dev'" "values_mem dev1' = values_mem dev'"
  shows "sorted_on d a I inp res dev1 dev1'"
  using assms by (simp add: sorted_on_def segment_pairs_def)

lemma sorted_on_compose:
  assumes A: "sorted_on d a I inp res dev devA"
    and B: "sorted_on d a J inp res devA devB"
    and dis: "disjoint_on a (I \<union> J)" and IJ: "I \<inter> J = {}"
  shows "sorted_on d a (I \<union> J) inp res dev devB"
  unfolding sorted_on_def
proof (intro conjI ballI allI impI)
  fix q q' j assume out: "\<forall>i\<in>I \<union> J. \<not> in_segment (begin_offsets a) (end_offsets a) i j"
  then show "keys_mem devB q j = keys_mem dev q j" "values_mem devB q' j = values_mem dev q' j"
    using A B unfolding sorted_on_def by auto
next
  fix i assume i: "i \<in> I \<union> J"
  let ?b = "unat (begin_offsets a i)" and ?e = "unat (end_offsets a i)"
  have other: "\<not> in_segment (begin_offsets a) (end_offsets a) i' j"
    if "in_segment (begin_offsets a) (end_offsets a) i j" "i' \<in> I \<union> J" "i' \<noteq> i" for i' j
    using dis that i unfolding disjoint_on_def by blast
  show "segment_pairs devB res ?b ?e
        = sort_key (\<lambda>p. digit_rank d (unat (begin_bit a)) (unat (end_bit a)) (fst p))
            (segment_pairs dev inp ?b ?e)"
  proof (cases "i \<in> I")
    case True
    then have notJ: "i \<notin> J" using IJ by auto
    have "segment_pairs devB res ?b ?e = segment_pairs devA res ?b ?e"
    proof (rule segment_pairs_cong)
      fix j assume "?b \<le> j" "j < ?e"
      then have "in_segment (begin_offsets a) (end_offsets a) i j" by (simp add: in_segment_def)
      then have "\<forall>i'\<in>J. \<not> in_segment (begin_offsets a) (end_offsets a) i' j"
        using other notJ by auto
      then show "keys_mem devB (fst res) j = keys_mem devA (fst res) j
                 \<and> values_mem devB (snd res) j = values_mem devA (snd res) j"
        using B unfolding sorted_on_def by simp
    qed
    then show ?thesis using A True unfolding sorted_on_def by simp
  next
    case False
    with i have iJ: "i \<in> J" by simp
    have "segment_pairs devA inp ?b ?e = segment_pairs dev inp ?b ?e"
    proof (rule segment_pairs_cong)
      fix j assume "?b \<le> j" "j < ?e"
      then have "in_segment (begin_offsets a) (end_offsets a) i j" by (simp add: in_segment_def)
      then have "\<forall>i'\<in>I. \<not> in_segment (begin_offsets a) (end_offsets a) i' j"
        using other False by auto
      then show "keys_mem devA (fst inp) j = keys_mem dev (fst inp) j
                 \<and> values_mem devA (snd inp) j = values_mem dev (snd inp) j"
        using A unfolding sorted_on_def by simp
    qed
    then show ?thesis using B iJ unfolding sorted_on_def by simp
  qed
qed

lemma launch_sync_cases:
  "hip_sync_and_return_on_error env debug ls ss name n
     (hipLaunchKernelGGL env ls cfg d k grid block args bo eo dev) =
   (let dev1 = dev\<lparr>device_ops := device_ops dev @ [LaunchKernel k grid block args]\<rparr>
    in if hip_result env ls \<noteq> hipSuccess then (hip_result env ls, dev1)
       else if debug
       then (hip_result env ss,
             (run_kernel cfg d k grid args bo eo dev1)
               \<lparr>console := console dev @ [(name, unat n)],
                device_ops := device_ops dev1 @ [StreamSynchronize]\<rparr>)
       else (hipSuccess, run_kernel cfg d k grid args bo eo dev1))"
  by (simp add: hip_sync_and_return_on_error_def hipLaunchKernelGGL_def Let_def run_kernel_frame)

lemma launch_sync_ok:
  assumes "hip_result env ls = hipSuccess" and "debug \<longrightarrow> hip_result env ss = hipSuccess"
  shows "fst (hip_sync_and_return_on_error env debug ls ss name n
            (hipLaunchKernelGGL env ls cfg d k grid block args bo eo dev)) = hipSuccess"
    and "keys_mem (snd (hip_sync_and_return_on_error env debug ls ss name n
            (hipLaunchKernelGGL env ls cfg d k grid block args bo eo dev)))
         = keys_mem (run_kernel cfg d k grid args bo eo
             (dev\<lparr>device_ops := device_ops dev @ [LaunchKernel k grid block args]\<rparr>))"
    and "values_mem (snd (hip_sync_and_return_on_error env debug ls ss name n
            (hipLaunchKernelGGL env ls cfg d k grid block args bo eo dev)))
         = values_mem (run_kernel cfg d k grid args bo eo
             (dev\<lparr>device_ops := device_ops dev @ [LaunchKernel k grid block args]\<rparr>))"
    and "index_mem (snd (hip_sync_and_return_on_error env debug ls ss name n
            (hipLaunchKernelGGL env ls cfg d k grid block args bo eo dev)))
         = index_mem dev"
  using assms by (simp_all add: launch_sync_cases Let_def run_kernel_frame)

lemma sorted_on_large_op:
  assumes cfg: "long_radix_bits cfg \<noteq> 0" "short_radix_bits cfg \<le> long_radix_bits cfg"
    and bits: "begin_bit a < end_bit a"
    and dis: "disjoint_on a (set is)" and "distinct is"
  shows "sorted_on d a (set is) (input_of bufs)
           (result_of bufs (is_result_in_output cfg wdb (end_bit a - begin_bit a))) dev
           (fold (segmented_sort cfg d
                    (make_args bufs (to_output cfg wdb (end_bit a - begin_bit a)) n idx first
                       (long_iterations cfg (end_bit a - begin_bit a))
                       (short_iterations cfg (end_bit a - begin_bit a)) (begin_bit a) (end_bit a))
                    (begin_offsets a) (end_offsets a)) is dev)"
proof (rule sorted_on_fold)
  show "disjoint_on a (set is)" by (rule dis)
  show "distinct is" by (rule assms(5))
qed (rule segmented_sort_outside, assumption, rule segmented_sort_result[OF cfg bits])

lemma sorted_on_small_op:
  assumes dis: "disjoint_on a (set is)" and "distinct is"
  shows "sorted_on d a (set is) (input_of bufs) (result_of bufs res) dev
           (fold (segmented_sort_small d
                    (make_args bufs res n idx first li si (begin_bit a) (end_bit a))
                    (begin_offsets a) (end_offsets a)) is dev)"
proof (rule sorted_on_fold)
  show "disjoint_on a (set is)" by (rule dis)
  show "distinct is" by (rule assms(2))
qed (rule segmented_sort_small_outside, assumption, rule segmented_sort_small_result)

lemma uniform_dispatch_sorted:
  assumes ok: "hip_result env UniformLaunch = hipSuccess"
      "debug_synchronous a \<longrightarrow> hip_result env UniformSync = hipSuccess"
    and cfg: "long_radix_bits cfg \<noteq> 0" "short_radix_bits cfg \<le> long_radix_bits cfg"
    and bits: "begin_bit a < end_bit a"
    and dis: "disjoint_on a {0..<unat (segments a)}"
  shows "fst (uniform_dispatch cfg env d a wdb bufs dev) = hipSuccess"
    and "sorted_on d a {0..<unat (segments a)} (input_of bufs)
           (result_of bufs (is_result_in_output cfg wdb (end_bit a - begin_bit a))) dev
           (snd (uniform_dispatch cfg env d a wdb bufs dev))"
proof -
  let ?args = "make_args bufs (to_output cfg wdb (end_bit a - begin_bit a)) 0 Null 0
                 (long_iterations cfg (end_bit a - begin_bit a))
                 (short_iterations cfg (end_bit a - begin_bit a)) (begin_bit a) (end_bit a)"
  let ?dev1 = "dev\<lparr>device_ops := device_ops dev
                 @ [LaunchKernel segmented_sort_kernel (segments a) (sort_block_size cfg) ?args]\<rparr>"
  let ?r = "uniform_dispatch cfg env d a wdb bufs dev"
  show "fst ?r = hipSuccess"
    unfolding uniform_dispatch_def Let_def using ok by (rule launch_sync_ok(1))
  have k: "keys_mem (snd ?r)
           = keys_mem (run_kernel cfg d segmented_sort_kernel (segments a) ?args
                (begin_offsets a) (end_offsets a) ?dev1)"
    unfolding uniform_dispatch_def Let_def using ok by (rule launch_sync_ok(2))
  have v: "values_mem (snd ?r)
           = values_mem (run_kernel cfg d segmented_sort_kernel (segments a) ?args
                (begin_offsets a) (end_offsets a) ?dev1)"
    unfolding uniform_dispatch_def Let_def using ok by (rule launch_sync_ok(3))
  have "sorted_on d a (set [0..<unat (segments a)]) (input_of bufs)
           (result_of bufs (is_result_in_output cfg wdb (end_bit a - begin_bit a))) ?dev1
           (run_kernel cfg d segmented_sort_kernel (segments a) ?args
                (begin_offsets a) (end_offsets a) ?dev1)"
    unfolding run_uniform using dis by (intro sorted_on_large_op[OF cfg bits]) simp_all
  then have s: "sorted_on d a {0..<unat (segments a)} (input_of bufs)
           (result_of bufs (is_result_in_output cfg wdb (end_bit a - begin_bit a))) ?dev1
           (run_kernel cfg d segmented_sort_kernel (segments a) ?args
                (begin_offsets a) (end_offsets a) ?dev1)"
    by simp
  show "sorted_on d a {0..<unat (segments a)} (input_of bufs)
           (result_of bufs (is_result_in_output cfg wdb (end_bit a - begin_bit a))) dev (snd ?r)"
    by (rule sorted_on_cong[OF s]) (simp_all add: k v)
qed

lemma partitioned_dispatch_ok:
  assumes "ps \<noteq> Null" and "hip_result env PartitionRun = hipSuccess"
    and "hip_result env CountMemcpy = hipSuccess" and "hip_result env CountSync = hipSuccess"
  shows "partitioned_dispatch cfg env d a wdb bufs pi pc ps dev =
     (let bits = end_bit a - begin_bit a;
          dev3 = (partition_effect pi pc (segments a) (selector_of cfg a) dev)
                   \<lparr>device_ops := device_ops dev
                      @ [PartitionCall ps 0 pi pc (segments a), MemcpyDeviceToHost pc,
                         StreamSynchronize]\<rparr>;
          large_segment_count = index_mem dev3 pc 0;
          r1 = (if large_segment_count > 0
                then hip_sync_and_return_on_error env (debug_synchronous a) LargeLaunch LargeSync
                       ''segmented_sort:large_segments'' large_segment_count
                       (hipLaunchKernelGGL env LargeLaunch cfg d segmented_sort_large_kernel
                          large_segment_count (sort_block_size cfg)
                          (make_args bufs (to_output cfg wdb bits) 0 pi 0
                             (long_iterations cfg bits) (short_iterations cfg bits)
                             (begin_bit a) (end_bit a))
                          (begin_offsets a) (end_offsets a) dev3)
                else (hipSuccess, dev3))
      in if fst r1 \<noteq> hipSuccess then r1
         else (let small_segment_count = segments a - large_segment_count
               in if small_segment_count > 0
                  then hip_sync_and_return_on_error env (debug_synchronous a) SmallLaunch SmallSync
                         ''segmented_sort:small_segments'' small_segment_count
                         (hipLaunchKernelGGL env SmallLaunch cfg d segmented_sort_small_kernel
                            (ceiling_div small_segment_count (small_segments_per_block cfg))
                            (block_size (warp_sort cfg))
                            (make_args bufs (is_result_in_output cfg wdb bits)
                               small_segment_count pi large_segment_count 0 0
                               (begin_bit a) (end_bit a))
                            (begin_offsets a) (end_offsets a) (snd r1))
                  else (hipSuccess, snd r1)))"
  using assms
  by (simp add: partitioned_dispatch_def partition_run Let_def partition_effect_def
      split: prod.splits)

lemma large_stage:
  fixes dev3 :: "('k::len word, 'v) device"
  assumes ok: "hip_result env LargeLaunch = hipSuccess"
      "debug \<longrightarrow> hip_result env LargeSync = hipSuccess"
    and cfg: "long_radix_bits cfg \<noteq> 0" "short_radix_bits cfg \<le> long_radix_bits cfg"
    and bits: "begin_bit a < end_bit a"
    and dis: "disjoint_on a {0..<unat (segments a)}"
    and idx: "map (\<lambda>j. unat (index_mem dev3 pi j)) [0..<unat (segments a)]
              = large_indices cfg a @ small_indices cfg a"
    and cnt: "lcount = word_of_nat (length (large_indices cfg a))"
    and r1: "r1 = (if lcount > 0
                then hip_sync_and_return_on_error env debug LargeLaunch LargeSync name lcount
                       (hipLaunchKernelGGL env LargeLaunch cfg d segmented_sort_large_kernel
                          lcount blk
                          (make_args bufs (to_output cfg wdb (end_bit a - begin_bit a)) 0 pi 0
                             (long_iterations cfg (end_bit a - begin_bit a))
                             (short_iterations cfg (end_bit a - begin_bit a))
                             (begin_bit a) (end_bit a))
                          (begin_offsets a) (end_offsets a) dev3)
                else (hipSuccess, dev3))"
  shows "fst r1 = hipSuccess"
    and "index_mem (snd r1) = index_mem dev3"
    and "sorted_on d a (set (large_indices cfg a)) (input_of bufs)
           (result_of bufs (is_result_in_output cfg wdb (end_bit a - begin_bit a)))
           dev3 (snd r1)"
proof -
  let ?args = "make_args bufs (to_output cfg wdb (end_bit a - begin_bit a)) 0 pi 0
                 (long_iterations cfg (end_bit a - begin_bit a))
                 (short_iterations cfg (end_bit a - begin_bit a)) (begin_bit a) (end_bit a)"
  let ?dev3' = "dev3\<lparr>device_ops := device_ops dev3
                 @ [LaunchKernel segmented_sort_large_kernel lcount blk ?args]\<rparr>"
  let ?res = "result_of bufs (is_result_in_output cfg wdb (end_bit a - begin_bit a))"
  have ucnt: "unat lcount = length (large_indices cfg a)"
    unfolding cnt by (rule unat_large_count)
  have dl: "disjoint_on a (set (large_indices cfg a))"
    using dis by (rule disjoint_on_subset) (auto simp add: large_indices_def)
  have distl: "distinct (large_indices cfg a)" using distinct_indices[of cfg a] by simp
  show "fst r1 = hipSuccess"
    unfolding r1 by (simp add: launch_sync_ok(1)[OF ok])
  show "index_mem (snd r1) = index_mem dev3"
    unfolding r1 by (simp add: launch_sync_ok(4)[OF ok])
  show "sorted_on d a (set (large_indices cfg a)) (input_of bufs) ?res dev3 (snd r1)"
  proof (cases "lcount > 0")
    case False
    then have "unat lcount = 0" by (simp add: word_gt_0 unat_eq_0)
    then have "large_indices cfg a = []" using ucnt by simp
    moreover have "snd r1 = dev3" unfolding r1 using False by simp
    ultimately show ?thesis by (simp add: sorted_on_empty)
  next
    case True
    have "segment_index_at ?dev3' ?args = (\<lambda>j. unat (index_mem dev3 pi j))"
      by (rule ext) (simp add: segment_index_at_def make_args_simps)
    then have segs: "map (segment_index_at ?dev3' ?args) [0..<unat lcount] = large_indices cfg a"
      unfolding ucnt using map_upt_take(1)[OF idx] by simp
    have s: "sorted_on d a (set (large_indices cfg a)) (input_of bufs) ?res ?dev3'
               (run_kernel cfg d segmented_sort_large_kernel lcount ?args
                  (begin_offsets a) (end_offsets a) ?dev3')"
      unfolding run_large segs by (rule sorted_on_large_op[OF cfg bits dl distl])
    show ?thesis
      by (rule sorted_on_cong[OF s]) (simp_all add: r1 True launch_sync_ok(2,3)[OF ok])
  qed
qed

lemma small_stage:
  fixes dev4 :: "('k::len word, 'v) device"
  assumes ok: "hip_result env SmallLaunch = hipSuccess"
      "debug \<longrightarrow> hip_result env SmallSync = hipSuccess"
    and per: "small_segments_per_block cfg \<noteq> 0"
    and dis: "disjoint_on a {0..<unat (segments a)}"
    and idx: "map (\<lambda>j. unat (index_mem dev4 pi j)) [0..<unat (segments a)]
              = large_indices cfg a @ small_indices cfg a"
    and cnt: "lcount = word_of_nat (length (large_indices cfg a))"
    and r2: "r2 = (if segments a - lcount > 0
                then hip_sync_and_return_on_error env debug SmallLaunch SmallSync name
                       (segments a - lcount)
                       (hipLaunchKernelGGL env SmallLaunch cfg d segmented_sort_small_kernel
                          (ceiling_div (segments a - lcount) (small_segments_per_block cfg)) blk
                          (make_args bufs res (segments a - lcount) pi lcount 0 0
                             (begin_bit a) (end_bit a))
                          (begin_offsets a) (end_offsets a) dev4)
                else (hipSuccess, dev4))"
  shows "fst r2 = hipSuccess"
    and "index_mem (snd r2) = index_mem dev4"
    and "sorted_on d a (set (small_indices cfg a)) (input_of bufs) (result_of bufs res)
           dev4 (snd r2)"
proof -
  let ?n = "segments a - lcount"
  let ?grid = "ceiling_div ?n (small_segments_per_block cfg)"
  let ?args = "make_args bufs res ?n pi lcount 0 0 (begin_bit a) (end_bit a)"
  let ?dev4' = "dev4\<lparr>device_ops := device_ops dev4
                 @ [LaunchKernel segmented_sort_small_kernel ?grid blk ?args]\<rparr>"
  have ucnt: "unat lcount = length (large_indices cfg a)"
    unfolding cnt by (rule unat_large_count)
  have un: "unat ?n = length (small_indices cfg a)"
    unfolding cnt by (rule unat_small_count)
  have ds: "disjoint_on a (set (small_indices cfg a))"
    using dis by (rule disjoint_on_subset) (auto simp add: small_indices_def)
  have dists: "distinct (small_indices cfg a)" using distinct_indices[of cfg a] by simp
  show "fst r2 = hipSuccess"
    unfolding r2 by (simp add: launch_sync_ok(1)[OF ok])
  show "index_mem (snd r2) = index_mem dev4"
    unfolding r2 by (simp add: launch_sync_ok(4)[OF ok])
  show "sorted_on d a (set (small_indices cfg a)) (input_of bufs) (result_of bufs res)
           dev4 (snd r2)"
  proof (cases "?n > 0")
    case False
    then have "unat ?n = 0" by (simp add: word_gt_0 unat_eq_0)
    then have "small_indices cfg a = []" using un by simp
    moreover have "snd r2 = dev4" unfolding r2 using False by simp
    ultimately show ?thesis by (simp add: sorted_on_empty)
  next
    case True
    have perpos: "0 < unat (small_segments_per_block cfg)" using per by (simp add: unat_gt_0)
    have "unat ?n \<le> unat ?grid * unat (small_segments_per_block cfg)"
      unfolding unat_ceiling_div[OF per] using perpos by (rule nat_ceiling_bounds(1))
    then have cover: "min (unat ?n) (unat ?grid * unat (small_segments_per_block cfg))
                      = length (small_indices cfg a)"
      using un by simp
    have "segment_index_at ?dev4' ?args
          = (\<lambda>j. unat (index_mem dev4 pi (length (large_indices cfg a) + j)))"
      by (rule ext) (simp add: segment_index_at_def make_args_simps ucnt)
    then have segs: "map (segment_index_at ?dev4' ?args) [0..<length (small_indices cfg a)]
                = small_indices cfg a"
      using map_upt_take(2)[OF idx] by simp
    have s: "sorted_on d a (set (small_indices cfg a)) (input_of bufs) (result_of bufs res) ?dev4'
               (run_kernel cfg d segmented_sort_small_kernel ?grid ?args
                  (begin_offsets a) (end_offsets a) ?dev4')"
      unfolding run_small make_args_simps cover segs
      by (rule sorted_on_small_op[OF ds dists])
    show ?thesis
      by (rule sorted_on_cong[OF s]) (simp_all add: r2 True launch_sync_ok(2,3)[OF ok])
  qed
qed

lemma partitioned_dispatch_sorted:
  fixes dev :: "('k::len word, 'v) device"
  assumes ok: "\<And>site. hip_result env site = hipSuccess"
    and cfg: "long_radix_bits cfg \<noteq> 0" "short_radix_bits cfg \<le> long_radix_bits cfg"
    and per: "small_segments_per_block cfg \<noteq> 0"
    and bits: "begin_bit a < end_bit a"
    and dis: "disjoint_on a {0..<unat (segments a)}"
    and ptrs: "ps \<noteq> Null" "pi \<noteq> pc"
  shows "fst (partitioned_dispatch cfg env d a wdb bufs pi pc ps dev) = hipSuccess"
    and "sorted_on d a {0..<unat (segments a)} (input_of bufs)
           (result_of bufs (is_result_in_output cfg wdb (end_bit a - begin_bit a))) dev
           (snd (partitioned_dispatch cfg env d a wdb bufs pi pc ps dev))"
    and "map (\<lambda>j. unat (index_mem (snd (partitioned_dispatch cfg env d a wdb bufs pi pc ps dev))
                        pi j)) [0..<unat (segments a)]
         = large_indices cfg a @ small_indices cfg a"
    and "index_mem (snd (partitioned_dispatch cfg env d a wdb bufs pi pc ps dev)) pc 0
         = word_of_nat (length (large_indices cfg a))"
proof -
  let ?bits = "end_bit a - begin_bit a"
  let ?res = "result_of bufs (is_result_in_output cfg wdb ?bits)"
  define dev3 where "dev3 = (partition_effect pi pc (segments a) (selector_of cfg a) dev)
                   \<lparr>device_ops := device_ops dev
                      @ [PartitionCall ps 0 pi pc (segments a), MemcpyDeviceToHost pc,
                         StreamSynchronize]\<rparr>"
  define lcount where "lcount = index_mem dev3 pc 0"
  define r1 where "r1 = (if lcount > 0
                then hip_sync_and_return_on_error env (debug_synchronous a) LargeLaunch LargeSync
                       ''segmented_sort:large_segments'' lcount
                       (hipLaunchKernelGGL env LargeLaunch cfg d segmented_sort_large_kernel
                          lcount (sort_block_size cfg)
                          (make_args bufs (to_output cfg wdb ?bits) 0 pi 0
                             (long_iterations cfg ?bits) (short_iterations cfg ?bits)
                             (begin_bit a) (end_bit a))
                          (begin_offsets a) (end_offsets a) dev3)
                else (hipSuccess, dev3))"
  define r2 where "r2 = (if segments a - lcount > 0
                then hip_sync_and_return_on_error env (debug_synchronous a) SmallLaunch SmallSync
                       ''segmented_sort:small_segments'' (segments a - lcount)
                       (hipLaunchKernelGGL env SmallLaunch cfg d segmented_sort_small_kernel
                          (ceiling_div (segments a - lcount) (small_segments_per_block cfg))
                          (block_size (warp_sort cfg))
                          (make_args bufs (is_result_in_output cfg wdb ?bits)
                             (segments a - lcount) pi lcount 0 0 (begin_bit a) (end_bit a))
                          (begin_offsets a) (end_offsets a) (snd r1))
                else (hipSuccess, snd r1))"
  have idx3: "map (\<lambda>j. unat (index_mem dev3 pi j)) [0..<unat (segments a)]
              = large_indices cfg a @ small_indices cfg a"
    unfolding dev3_def using partition_effect_indices[OF ptrs(2), of a cfg dev] by simp
  have cnt: "lcount = word_of_nat (length (large_indices cfg a))"
    unfolding lcount_def dev3_def using partition_effect_count[of pi pc a cfg dev] by simp
  have mem3: "keys_mem dev3 = keys_mem dev" "values_mem dev3 = values_mem dev"
    unfolding dev3_def by (simp_all add: partition_effect_frame)
  note s1 = large_stage[OF ok ok[THEN impI[of "debug_synchronous a"]] cfg bits dis idx3 cnt r1_def]
  have idx4: "map (\<lambda>j. unat (index_mem (snd r1) pi j)) [0..<unat (segments a)]
              = large_indices cfg a @ small_indices cfg a"
    unfolding s1(2) by (rule idx3)
  note s2 = small_stage[OF ok ok[THEN impI[of "debug_synchronous a"]] per dis idx4 cnt r2_def]
  have whole: "partitioned_dispatch cfg env d a wdb bufs pi pc ps dev = r2"
    unfolding partitioned_dispatch_ok[OF ptrs(1) ok ok ok] Let_def
    unfolding dev3_def[symmetric] lcount_def[symmetric] r1_def[symmetric]
    using s1(1) by (simp add: r2_def)
  show "fst (partitioned_dispatch cfg env d a wdb bufs pi pc ps dev) = hipSuccess"
    unfolding whole by (rule s2(1))
  have A: "sorted_on d a (set (large_indices cfg a)) (input_of bufs) ?res dev (snd r1)"
    by (rule sorted_on_cong[OF s1(3)]) (simp_all add: mem3)
  have "sorted_on d a (set (large_indices cfg a) \<union> set (small_indices cfg a))
          (input_of bufs) ?res dev (snd r2)"
  proof (rule sorted_on_compose[OF A s2(3)])
    show "disjoint_on a (set (large_indices cfg a) \<union> set (small_indices cfg a))"
      using dis set_indices[of cfg a] by simp
    show "set (large_indices cfg a) \<inter> set (small_indices cfg a) = {}"
      using distinct_indices[of cfg a] by simp
  qed
  then show "sorted_on d a {0..<unat (segments a)} (input_of bufs) ?res dev
           (snd (partitioned_dispatch cfg env d a wdb bufs pi pc ps dev))"
    unfolding whole using set_indices[of cfg a] by simp
  show "map (\<lambda>j. unat (index_mem (snd (partitioned_dispatch cfg env d a wdb bufs pi pc ps dev))
                        pi j)) [0..<unat (segments a)]
         = large_indices cfg a @ small_indices cfg a"
    unfolding whole s2(2) by (rule idx4)
  show "index_mem (snd (partitioned_dispatch cfg env d a wdb bufs pi pc ps dev)) pc 0
         = word_of_nat (length (large_indices cfg a))"
    unfolding whole s2(2) s1(2) using cnt by (simp add: lcount_def)
qed

lemma valid_offsets_disjoint:
  assumes "valid_offsets a"
  shows "disjoint_on a {0..<unat (segments a)}"
  unfolding disjoint_on_def in_segment_def
proof (intro ballI impI allI notI)
  fix i i' j
  assume i: "i \<in> {0..<unat (segments a)}" and i': "i' \<in> {0..<unat (segments a)}"
    and ne: "i \<noteq> i'"
    and both: "(unat (begin_offsets a i) \<le> j \<and> j < unat (end_offsets a i))
               \<and> unat (begin_offsets a i') \<le> j \<and> j < unat (end_offsets a i')"
  have sep: "unat (end_offsets a l) \<le> unat (begin_offsets a h)
             \<or> unat (end_offsets a h) \<le> unat (begin_offsets a l)"
    if "l < h" "h < unat (segments a)" for l h
    using assms that unfolding valid_offsets_def by (auto simp add: word_le_nat_alt)
  from ne consider "i < i'" | "i' < i" by (auto simp add: neq_iff)
  then show False
  proof cases
    case 1
    then show ?thesis using sep[of i i'] i' both by auto
  next
    case 2
    then show ?thesis using sep[of i' i] i both by auto
  qed
qed

lemma carve_buffers:
  "input_of (fst (carve tp a bufs)) = input_of bufs"
  "output_of (fst (carve tp a bufs)) = output_of bufs"
  "keys_tmp bufs \<noteq> Null \<Longrightarrow> fst (carve tp a bufs) = bufs"
  by (simp_all add: carve_def Let_def input_of_def output_of_def)

lemma result_of_carve:
  "result_of (fst (carve tp a bufs)) (is_result_in_output cfg (keys_tmp bufs \<noteq> Null) bits)
   = result_of bufs (is_result_in_output cfg (keys_tmp bufs \<noteq> Null) bits)"
proof (cases "keys_tmp bufs = Null")
  case True
  then have "is_result_in_output cfg (keys_tmp bufs \<noteq> Null) bits"
    by (simp add: is_result_in_output_parity to_output_parity)
  then show ?thesis by (simp add: result_of_def carve_buffers)
next
  case False
  then show ?thesis by (simp add: carve_buffers)
qed

lemma impl_sorted:
  fixes dev :: "('k::len word, 'v) device"
  assumes exec: "temporary_storage a \<noteq> Null"
    and ok: "\<And>site. hip_result env site = hipSuccess"
    and cfg: "valid_config cfg" and al: "valid_alignment tp"
    and bits: "begin_bit a < end_bit a"
    and offs: "valid_offsets a"
  shows "status (segmented_radix_sort_impl cfg tp env d a bufs dev) = hipSuccess"
    and "sorted_on d a {0..<unat (segments a)} (input_of bufs)
           (result_of bufs (result_in_output (segmented_radix_sort_impl cfg tp env d a bufs dev)))
           dev (device_out (segmented_radix_sort_impl cfg tp env d a bufs dev))"
proof -
  let ?r = "segmented_radix_sort_impl cfg tp env d a bufs dev"
  let ?wdb = "keys_tmp bufs \<noteq> Null"
  let ?bits = "end_bit a - begin_bit a"
  let ?res = "is_result_in_output cfg ?wdb ?bits"
  let ?bufs1 = "fst (carve tp a bufs)"
  let ?dev1 = "if debug_synchronous a then debug_dump cfg a dev else dev"
  have flag: "result_in_output ?r = ?res" by (rule impl_result_flag)
  have c1: "long_radix_bits cfg \<noteq> 0" and c2: "short_radix_bits cfg \<le> long_radix_bits cfg"
    using cfg by (simp_all add: valid_config_def word_gt_0)
  have dis: "disjoint_on a {0..<unat (segments a)}" using offs by (rule valid_offsets_disjoint)
  have mem1: "keys_mem ?dev1 = keys_mem dev" "values_mem ?dev1 = values_mem dev"
    by (simp_all add: debug_dump_frame)
  have "status ?r = hipSuccess \<and> sorted_on d a {0..<unat (segments a)} (input_of bufs)
           (result_of bufs ?res) dev (device_out ?r)"
  proof (cases "segments a = 0")
    case True
    then show ?thesis by (simp add: impl_zero_segments[OF exec] sorted_on_def)
  next
    case False
    show ?thesis
    proof (cases "do_partitioning cfg (segments a)")
      case True
      then have per: "small_segments_per_block cfg \<noteq> 0"
        using cfg by (simp add: valid_config_def do_partitioning_def word_gt_0)
      have aln: "alignment tp \<noteq> 0" and alb: "unat (alignment tp) \<le> 2 ^ 32"
        using al by (simp_all add: valid_alignment_def word_gt_0 word_le_nat_alt)
      have nz: "unat (segment_indices_bytes tp a) \<noteq> 0"
        using aln alb False by (rule segment_indices_bytes_nonzero)
      obtain b1 p1 p2 p3 where c: "carve tp a bufs = (b1, p1, p2, p3)"
        by (cases "carve tp a bufs") auto
      have p3: "p3 \<noteq> Null" using carve_not_Null(3)[OF exec c] .
      have p12: "p1 \<noteq> p2" using carve_index_ptrs[OF exec nz, of bufs] by (simp add: c)
      note pd = partitioned_dispatch_sorted[OF ok c1 c2 per bits dis p3 p12,
          where d=d and wdb="?wdb" and bufs=b1 and dev="?dev1"]
      have b1: "b1 = ?bufs1" by (simp add: c)
      have s: "sorted_on d a {0..<unat (segments a)} (input_of bufs) (result_of bufs ?res) ?dev1
                 (snd (partitioned_dispatch cfg env d a ?wdb b1 p1 p2 p3 ?dev1))"
        using pd(2) unfolding b1 carve_buffers result_of_carve .
      have "sorted_on d a {0..<unat (segments a)} (input_of bufs) (result_of bufs ?res) dev
                 (snd (partitioned_dispatch cfg env d a ?wdb b1 p1 p2 p3 ?dev1))"
        by (rule sorted_on_cong[OF s]) (simp_all add: mem1)
      then show ?thesis
        using pd(1) True by (simp add: impl_execute[OF exec False] Let_def ok c)
    next
      case nopart: False
      note ud = uniform_dispatch_sorted[OF ok ok[THEN impI[of "debug_synchronous a"]] c1 c2 bits dis,
          where d=d and wdb="?wdb" and bufs="?bufs1" and dev="?dev1"]
      have s: "sorted_on d a {0..<unat (segments a)} (input_of bufs) (result_of bufs ?res) ?dev1
                 (snd (uniform_dispatch cfg env d a ?wdb ?bufs1 ?dev1))"
        using ud(2) unfolding carve_buffers result_of_carve .
      have "sorted_on d a {0..<unat (segments a)} (input_of bufs) (result_of bufs ?res) dev
                 (snd (uniform_dispatch cfg env d a ?wdb ?bufs1 ?dev1))"
        by (rule sorted_on_cong[OF s]) (simp_all add: mem1)
      then show ?thesis
        using ud(1) nopart by (simp add: impl_execute[OF exec False] Let_def ok)
    qed
  qed
  then show "status ?r = hipSuccess"
    and "sorted_on d a {0..<unat (segments a)} (input_of bufs)
           (result_of bufs (result_in_output ?r)) dev (device_out ?r)"
    unfolding flag by simp_all
qed

section \<open>The entry points sort every segment\<close>




lemma sort_to_output_sorted:
  fixes dev :: "('k::len word, 'v) device"
  assumes exec: "temporary_storage a \<noteq> Null"
    and ok: "\<And>site. hip_result env site = hipSuccess"
    and cfg: "valid_config cfg" and al: "valid_alignment tp"
    and bits: "begin_bit a < end_bit a"
    and offs: "valid_offsets a"
  shows "error (sort_to_output cfg tp env d a ki ko vi vo dev) = hipSuccess"
    and "sorted_on d a {0..<unat (segments a)} (ki, vi) (ko, vo) dev
           (device_after (sort_to_output cfg tp env d a ki ko vi vo dev))"
proof -
  let ?bufs = "\<lparr>keys_input = ki, keys_tmp = Null, keys_output = ko,
                 values_input = vi, values_tmp = Null, values_output = vo\<rparr>"
  note s = impl_sorted[OF exec ok cfg al bits offs, where d=d and bufs="?bufs" and dev=dev]
  have res: "result_in_output (segmented_radix_sort_impl cfg tp env d a ?bufs dev)"
    by (simp add: impl_result_flag is_result_in_output_parity to_output_parity)
  show "error (sort_to_output cfg tp env d a ki ko vi vo dev) = hipSuccess"
    using s(1) by (simp add: sort_to_output_def Let_def)
  show "sorted_on d a {0..<unat (segments a)} (ki, vi) (ko, vo) dev
           (device_after (sort_to_output cfg tp env d a ki ko vi vo dev))"
    using s(2) res
    by (simp add: sort_to_output_def Let_def input_of_def result_of_def output_of_def)
qed



lemma segment_pairs_nth:
  assumes "b \<le> j" and "j < e"
  shows "segment_pairs dev p b e ! (j - b) = (keys_mem dev (fst p) j, values_mem dev (snd p) j)"
  using assms by (simp add: segment_pairs_def load_segment_def)

subsection \<open>The example inputs are well formed\<close>

lemma valid_call8: "valid_offsets call8"
  unfolding valid_offsets_def
  by (simp add: call8_def offsets3_def numeral_3_eq_3 less_Suc_eq all_conj_distrib)

lemma valid_cfg76: "valid_config cfg76" "valid_config cfg76_uniform"
  by (simp_all add: valid_config_def cfg76_def cfg76_uniform_def partitioning_allowed_def
      small_segments_per_block_def)

lemma valid_tp14: "valid_alignment tp14"
  by (simp add: valid_alignment_def tp14_def)

lemma env_ok_all: "\<forall>site. hip_result env_ok site = hipSuccess"
  by (simp add: env_ok_def)

lemma do_partitioning_cfg76_3: "do_partitioning cfg76 3"
  by (simp add: do_partitioning_def partitioning_allowed_def cfg76_def)

lemma do_partitioning_uniform: "\<not> do_partitioning cfg76_uniform n"
  by (simp add: do_partitioning_def cfg76_uniform_def partitioning_allowed_def)

lemma align_size_tp14: "align_size tp14 8 = 256" "align_size tp14 32 = 256" "align_size tp14 12 = 256"
  "align_size tp14 4 = 256"
  by (simp_all add: align_size_def ceiling_div_def tp14_def)


section \<open>The classification of segments\<close>

subsection \<open>What the classified path writes and launches\<close>

lemma launch_sync_log:
  assumes "hip_result env ls = hipSuccess" and "debug \<longrightarrow> hip_result env ss = hipSuccess"
  shows "launches (device_ops (snd (hip_sync_and_return_on_error env debug ls ss name n
            (hipLaunchKernelGGL env ls cfg d k grid block args bo eo dev))))
         = launches (device_ops dev) @ [LaunchKernel k grid block args]"
    and "partition_calls (device_ops (snd (hip_sync_and_return_on_error env debug ls ss name n
            (hipLaunchKernelGGL env ls cfg d k grid block args bo eo dev))))
         = partition_calls (device_ops dev)"
  using assms
  by (simp_all add: launch_sync_cases Let_def run_kernel_frame launches_simps
      partition_calls_simps)

lemma partitioned_dispatch_classified:
  fixes dev :: "('k::len word, 'v) device"
  assumes ok: "\<And>site. hip_result env site = hipSuccess"
    and ptrs: "ps \<noteq> Null" "pi \<noteq> pc"
  shows "fst (partitioned_dispatch cfg env d a wdb bufs pi pc ps dev) = hipSuccess"
    and "map (\<lambda>j. unat (index_mem (snd (partitioned_dispatch cfg env d a wdb bufs pi pc ps dev))
                        pi j)) [0..<unat (segments a)]
         = large_indices cfg a @ small_indices cfg a"
    and "index_mem (snd (partitioned_dispatch cfg env d a wdb bufs pi pc ps dev)) pc 0
         = word_of_nat (length (large_indices cfg a))"
    and "partition_calls (device_ops (snd (partitioned_dispatch cfg env d a wdb bufs pi pc ps dev)))
         = partition_calls (device_ops dev) @ [PartitionCall ps 0 pi pc (segments a)]"
    and "launches (device_ops (snd (partitioned_dispatch cfg env d a wdb bufs pi pc ps dev)))
         = launches (device_ops dev)
           @ (if large_indices cfg a = [] then []
              else [LaunchKernel segmented_sort_large_kernel
                      (word_of_nat (length (large_indices cfg a))) (sort_block_size cfg)
                      (make_args bufs (to_output cfg wdb (end_bit a - begin_bit a)) 0 pi 0
                         (long_iterations cfg (end_bit a - begin_bit a))
                         (short_iterations cfg (end_bit a - begin_bit a))
                         (begin_bit a) (end_bit a))])
           @ (if small_indices cfg a = [] then []
              else [LaunchKernel segmented_sort_small_kernel
                      (ceiling_div (word_of_nat (length (small_indices cfg a)))
                         (small_segments_per_block cfg))
                      (block_size (warp_sort cfg))
                      (make_args bufs (is_result_in_output cfg wdb (end_bit a - begin_bit a))
                         (word_of_nat (length (small_indices cfg a))) pi
                         (word_of_nat (length (large_indices cfg a))) 0 0
                         (begin_bit a) (end_bit a))])"
proof -
  let ?bits = "end_bit a - begin_bit a"
  define dev3 where "dev3 = (partition_effect pi pc (segments a) (selector_of cfg a) dev)
                   \<lparr>device_ops := device_ops dev
                      @ [PartitionCall ps 0 pi pc (segments a), MemcpyDeviceToHost pc,
                         StreamSynchronize]\<rparr>"
  define lcount :: u32 where "lcount = word_of_nat (length (large_indices cfg a))"
  define scount :: u32 where "scount = word_of_nat (length (small_indices cfg a))"
  define r1 where "r1 = (if lcount > 0
                then hip_sync_and_return_on_error env (debug_synchronous a) LargeLaunch LargeSync
                       ''segmented_sort:large_segments'' lcount
                       (hipLaunchKernelGGL env LargeLaunch cfg d segmented_sort_large_kernel
                          lcount (sort_block_size cfg)
                          (make_args bufs (to_output cfg wdb ?bits) 0 pi 0
                             (long_iterations cfg ?bits) (short_iterations cfg ?bits)
                             (begin_bit a) (end_bit a))
                          (begin_offsets a) (end_offsets a) dev3)
                else (hipSuccess, dev3))"
  define r2 where "r2 = (if scount > 0
                then hip_sync_and_return_on_error env (debug_synchronous a) SmallLaunch SmallSync
                       ''segmented_sort:small_segments'' scount
                       (hipLaunchKernelGGL env SmallLaunch cfg d segmented_sort_small_kernel
                          (ceiling_div scount (small_segments_per_block cfg))
                          (block_size (warp_sort cfg))
                          (make_args bufs (is_result_in_output cfg wdb ?bits)
                             scount pi lcount 0 0 (begin_bit a) (end_bit a))
                          (begin_offsets a) (end_offsets a) (snd r1))
                else (hipSuccess, snd r1))"
  have cnt: "index_mem dev3 pc 0 = lcount"
    by (simp add: dev3_def lcount_def partition_effect_count)
  have sc: "segments a - lcount = scount"
  proof -
    have "unat scount = length (small_indices cfg a)"
      unfolding scount_def using length_indices[of cfg a]
      by (intro le_unat_uoi[of _ "segments a"]) simp
    then show ?thesis
      using unat_small_count[of a cfg] unfolding lcount_def by (simp add: word_unat_eq_iff)
  qed
  have idx3: "map (\<lambda>j. unat (index_mem dev3 pi j)) [0..<unat (segments a)]
              = large_indices cfg a @ small_indices cfg a"
    by (simp add: dev3_def partition_effect_indices[OF ptrs(2)])
  have ops3: "launches (device_ops dev3) = launches (device_ops dev)"
    "partition_calls (device_ops dev3)
       = partition_calls (device_ops dev) @ [PartitionCall ps 0 pi pc (segments a)]"
    by (simp_all add: dev3_def launches_simps partition_calls_simps)
  have l0: "lcount > 0 \<longleftrightarrow> large_indices cfg a \<noteq> []"
    using unat_large_count[of cfg a] unfolding lcount_def
    by (metis length_greater_0_conv unat_gt_0 word_greater_zero_iff)
  have s0: "scount > 0 \<longleftrightarrow> small_indices cfg a \<noteq> []"
    using unat_small_count[of a cfg] unfolding sc[symmetric] lcount_def
    by (metis length_greater_0_conv unat_gt_0 word_greater_zero_iff)
  have okd: "debug_synchronous a \<longrightarrow> hip_result env s = hipSuccess" for s
    by (simp add: ok)
  have r1: "fst r1 = hipSuccess" "index_mem (snd r1) = index_mem dev3"
    "partition_calls (device_ops (snd r1)) = partition_calls (device_ops dev3)"
    "launches (device_ops (snd r1)) = launches (device_ops dev3)
       @ (if large_indices cfg a = [] then []
          else [LaunchKernel segmented_sort_large_kernel lcount (sort_block_size cfg)
                  (make_args bufs (to_output cfg wdb ?bits) 0 pi 0
                     (long_iterations cfg ?bits) (short_iterations cfg ?bits)
                     (begin_bit a) (end_bit a))])"
    unfolding r1_def using l0
    by (simp_all add: launch_sync_ok[OF ok okd] launch_sync_log[OF ok okd])
  have r2: "fst r2 = hipSuccess" "index_mem (snd r2) = index_mem (snd r1)"
    "partition_calls (device_ops (snd r2)) = partition_calls (device_ops (snd r1))"
    "launches (device_ops (snd r2)) = launches (device_ops (snd r1))
       @ (if small_indices cfg a = [] then []
          else [LaunchKernel segmented_sort_small_kernel
                  (ceiling_div scount (small_segments_per_block cfg))
                  (block_size (warp_sort cfg))
                  (make_args bufs (is_result_in_output cfg wdb ?bits)
                     scount pi lcount 0 0 (begin_bit a) (end_bit a))])"
    unfolding r2_def using s0
    by (simp_all add: launch_sync_ok[OF ok okd] launch_sync_log[OF ok okd])
  have pd: "partitioned_dispatch cfg env d a wdb bufs pi pc ps dev = r2"
    unfolding partitioned_dispatch_ok[OF ptrs(1) ok ok ok] Let_def
    unfolding dev3_def[symmetric] cnt sc r1_def[symmetric] r2_def[symmetric]
    using r1(1) by simp
  show "fst (partitioned_dispatch cfg env d a wdb bufs pi pc ps dev) = hipSuccess"
    unfolding pd by (rule r2(1))
  show "map (\<lambda>j. unat (index_mem (snd (partitioned_dispatch cfg env d a wdb bufs pi pc ps dev))
                        pi j)) [0..<unat (segments a)]
         = large_indices cfg a @ small_indices cfg a"
    unfolding pd r2(2) r1(2) by (rule idx3)
  show "index_mem (snd (partitioned_dispatch cfg env d a wdb bufs pi pc ps dev)) pc 0
         = word_of_nat (length (large_indices cfg a))"
    unfolding pd r2(2) r1(2) cnt lcount_def ..
  show "partition_calls (device_ops (snd (partitioned_dispatch cfg env d a wdb bufs pi pc ps dev)))
         = partition_calls (device_ops dev) @ [PartitionCall ps 0 pi pc (segments a)]"
    unfolding pd r2(3) r1(3) by (rule ops3(2))
  show "launches (device_ops (snd (partitioned_dispatch cfg env d a wdb bufs pi pc ps dev)))
         = launches (device_ops dev)
           @ (if large_indices cfg a = [] then []
              else [LaunchKernel segmented_sort_large_kernel
                      (word_of_nat (length (large_indices cfg a))) (sort_block_size cfg)
                      (make_args bufs (to_output cfg wdb (end_bit a - begin_bit a)) 0 pi 0
                         (long_iterations cfg (end_bit a - begin_bit a))
                         (short_iterations cfg (end_bit a - begin_bit a))
                         (begin_bit a) (end_bit a))])
           @ (if small_indices cfg a = [] then []
              else [LaunchKernel segmented_sort_small_kernel
                      (ceiling_div (word_of_nat (length (small_indices cfg a)))
                         (small_segments_per_block cfg))
                      (block_size (warp_sort cfg))
                      (make_args bufs (is_result_in_output cfg wdb (end_bit a - begin_bit a))
                         (word_of_nat (length (small_indices cfg a))) pi
                         (word_of_nat (length (large_indices cfg a))) 0 0
                         (begin_bit a) (end_bit a))])"
    unfolding pd r2(4) r1(4) ops3(1) lcount_def scount_def by simp
qed

lemma impl_classified:
  fixes dev :: "('k::len word, 'v) device"
  assumes exec: "temporary_storage a \<noteq> Null" and nz: "segments a \<noteq> 0"
    and part: "do_partitioning cfg (segments a)"
    and ok: "\<And>site. hip_result env site = hipSuccess"
    and al: "valid_alignment tp"
    and c: "carve tp a bufs = (b1, pi, pc, ps)"
    and r: "r = segmented_radix_sort_impl cfg tp env d a bufs dev"
  shows "status r = hipSuccess"
    and "map (\<lambda>j. unat (index_mem (device_out r) pi j)) [0..<unat (segments a)]
         = large_indices cfg a @ small_indices cfg a"
    and "index_mem (device_out r) pc 0 = word_of_nat (length (large_indices cfg a))"
    and "partition_calls (device_ops (device_out r))
         = partition_calls (device_ops dev) @ [PartitionCall ps 0 pi pc (segments a)]"
    and "launches (device_ops (device_out r))
         = launches (device_ops dev)
           @ (if large_indices cfg a = [] then []
              else [LaunchKernel segmented_sort_large_kernel
                      (word_of_nat (length (large_indices cfg a))) (sort_block_size cfg)
                      (make_args b1
                         (to_output cfg (keys_tmp bufs \<noteq> Null) (end_bit a - begin_bit a))
                         0 pi 0
                         (long_iterations cfg (end_bit a - begin_bit a))
                         (short_iterations cfg (end_bit a - begin_bit a))
                         (begin_bit a) (end_bit a))])
           @ (if small_indices cfg a = [] then []
              else [LaunchKernel segmented_sort_small_kernel
                      (ceiling_div (word_of_nat (length (small_indices cfg a)))
                         (small_segments_per_block cfg))
                      (block_size (warp_sort cfg))
                      (make_args b1
                         (is_result_in_output cfg (keys_tmp bufs \<noteq> Null)
                            (end_bit a - begin_bit a))
                         (word_of_nat (length (small_indices cfg a))) pi
                         (word_of_nat (length (large_indices cfg a))) 0 0
                         (begin_bit a) (end_bit a))])"
proof -
  let ?wdb = "keys_tmp bufs \<noteq> Null"
  let ?dev1 = "if debug_synchronous a then debug_dump cfg a dev else dev"
  have aln: "alignment tp \<noteq> 0" and alb: "unat (alignment tp) \<le> 2 ^ 32"
    using al by (simp_all add: valid_alignment_def word_gt_0 word_le_nat_alt)
  have nzb: "unat (segment_indices_bytes tp a) \<noteq> 0"
    using aln alb nz by (rule segment_indices_bytes_nonzero)
  have p3: "ps \<noteq> Null" using carve_not_Null(3)[OF exec c] .
  have p12: "pi \<noteq> pc" using carve_index_ptrs[OF exec nzb, of bufs] by (simp add: c)
  note pd = partitioned_dispatch_classified[OF ok p3 p12,
      where cfg=cfg and d=d and a=a and wdb="?wdb" and bufs=b1 and dev="?dev1"]
  have ops1: "launches (device_ops ?dev1) = launches (device_ops dev)"
    "partition_calls (device_ops ?dev1) = partition_calls (device_ops dev)"
    by (simp_all add: debug_dump_frame)
  have st: "status r = fst (partitioned_dispatch cfg env d a ?wdb b1 pi pc ps ?dev1)"
    and dv: "device_out r = snd (partitioned_dispatch cfg env d a ?wdb b1 pi pc ps ?dev1)"
    unfolding r using part by (simp_all add: impl_execute[OF exec nz] Let_def ok c)
  show "status r = hipSuccess" unfolding st by (rule pd(1))
  show "map (\<lambda>j. unat (index_mem (device_out r) pi j)) [0..<unat (segments a)]
         = large_indices cfg a @ small_indices cfg a"
    unfolding dv by (rule pd(2))
  show "index_mem (device_out r) pc 0 = word_of_nat (length (large_indices cfg a))"
    unfolding dv by (rule pd(3))
  show "partition_calls (device_ops (device_out r))
         = partition_calls (device_ops dev) @ [PartitionCall ps 0 pi pc (segments a)]"
    unfolding dv pd(4) ops1 ..
  show "launches (device_ops (device_out r))
         = launches (device_ops dev)
           @ (if large_indices cfg a = [] then []
              else [LaunchKernel segmented_sort_large_kernel
                      (word_of_nat (length (large_indices cfg a))) (sort_block_size cfg)
                      (make_args b1
                         (to_output cfg (keys_tmp bufs \<noteq> Null) (end_bit a - begin_bit a))
                         0 pi 0
                         (long_iterations cfg (end_bit a - begin_bit a))
                         (short_iterations cfg (end_bit a - begin_bit a))
                         (begin_bit a) (end_bit a))])
           @ (if small_indices cfg a = [] then []
              else [LaunchKernel segmented_sort_small_kernel
                      (ceiling_div (word_of_nat (length (small_indices cfg a)))
                         (small_segments_per_block cfg))
                      (block_size (warp_sort cfg))
                      (make_args b1
                         (is_result_in_output cfg (keys_tmp bufs \<noteq> Null)
                            (end_bit a - begin_bit a))
                         (word_of_nat (length (small_indices cfg a))) pi
                         (word_of_nat (length (large_indices cfg a))) 0 0
                         (begin_bit a) (end_bit a))])"
    unfolding dv pd(5) ops1 ..
qed

lemma small_indices_short:
  assumes "i \<in> set (small_indices cfg a)"
  shows "i < unat (segments a)"
    and "end_offsets a i - begin_offsets a i \<le> max_small_segment_length cfg"
proof -
  show i: "i < unat (segments a)" using assms by (simp add: small_indices_def)
  have u: "unat (word_of_nat i :: u32) = i"
    using i by (intro le_unat_uoi[of _ "segments a"]) simp
  have "\<not> selector_of cfg a (word_of_nat i)" using assms by (simp add: small_indices_def)
  then show "end_offsets a i - begin_offsets a i \<le> max_small_segment_length cfg"
    by (simp add: selector_of_def large_segment_selector_def Let_def u not_less)
qed

subsection \<open>The index lists by segment length\<close>

lemma indices_by_length:
  "large_indices cfg a
     = filter (\<lambda>i. max_small_segment_length cfg < end_offsets a i - begin_offsets a i)
         [0..<unat (segments a)]"
  "small_indices cfg a
     = filter (\<lambda>i. end_offsets a i - begin_offsets a i \<le> max_small_segment_length cfg)
         [0..<unat (segments a)]"
proof -
  have u: "unat (word_of_nat i :: u32) = i" if "i < unat (segments a)" for i
    using that by (intro le_unat_uoi[of _ "segments a"]) simp
  show "large_indices cfg a
     = filter (\<lambda>i. max_small_segment_length cfg < end_offsets a i - begin_offsets a i)
         [0..<unat (segments a)]"
    unfolding large_indices_def
    by (rule filter_cong) (simp_all add: selector_of_def large_segment_selector_def Let_def u)
  show "small_indices cfg a
     = filter (\<lambda>i. end_offsets a i - begin_offsets a i \<le> max_small_segment_length cfg)
         [0..<unat (segments a)]"
    unfolding small_indices_def
    by (rule filter_cong)
       (simp_all add: selector_of_def large_segment_selector_def Let_def u not_less)
qed

lemma small_entry:
  assumes idx: "map (\<lambda>j. unat (index_mem dev pi j)) [0..<unat (segments a)]
                = large_indices cfg a @ small_indices cfg a"
    and w: "w < length (small_indices cfg a)"
    and args: "k_segment_indices args = pi"
      "k_segment_indices_first args = word_of_nat (length (large_indices cfg a))"
  shows "segment_index_at dev args w = small_indices cfg a ! w"
proof -
  have n: "length (large_indices cfg a) + w < unat (segments a)"
    using w length_indices[of cfg a] by simp
  have "(map (\<lambda>j. unat (index_mem dev pi j)) [0..<unat (segments a)])
          ! (length (large_indices cfg a) + w)
        = (large_indices cfg a @ small_indices cfg a) ! (length (large_indices cfg a) + w)"
    using idx by simp
  then have "unat (index_mem dev pi (length (large_indices cfg a) + w))
             = small_indices cfg a ! w"
    using n by (simp add: nth_append)
  then show ?thesis by (simp add: segment_index_at_def args unat_large_count)
qed

subsection \<open>The classification of the example\<close>

lemma carve_call8:
  "carve tp14 call8 bufs8
   = (\<lparr>keys_input = Ptr 1 0, keys_tmp = Ptr 0 0, keys_output = Ptr 2 0,
        values_input = Ptr 3 0, values_tmp = Ptr 0 256, values_output = Ptr 4 0\<rparr>,
      Ptr 0 512, Ptr 0 768, Ptr 0 1024)"
proof -
  have b: "keys_bytes tp14 call8 = 256" "values_bytes tp14 call8 = 256"
    "segment_indices_bytes tp14 call8 = 256" "large_segment_count_bytes tp14 = 256"
    by (simp_all add: keys_bytes_def values_bytes_def segment_indices_bytes_def
        large_segment_count_bytes_def call8_def align_size_tp14)
       (simp_all add: tp14_def align_size_tp14[unfolded tp14_def])
  have w: "with_values tp14" by (simp add: tp14_def)
  show ?thesis
    unfolding carve_def Let_def b
    by (simp add: bufs8_def call8_def w)
qed

lemma indices_call8: "large_indices cfg76 call8 = [2]" "small_indices cfg76 call8 = [0, 1]"
proof -
  have n: "[0..<unat (segments call8)] = [0, Suc 0, Suc (Suc 0)]"
  proof -
    have "unat (segments call8) = Suc (Suc (Suc 0))" by (simp add: call8_def)
    then show ?thesis by simp
  qed
  have m: "max_small_segment_length cfg76 = 4"
    by (simp add: max_small_segment_length_def cfg76_def)
  show "large_indices cfg76 call8 = [2]" "small_indices cfg76 call8 = [0, 1]"
    unfolding indices_by_length n m by (simp_all add: call8_def offsets3_def)
qed

section \<open>What a call reads and writes\<close>

subsection \<open>The kernels depend on the data only\<close>

lemma fold_rel:
  assumes "\<And>i d d2. R d d2 \<Longrightarrow> R (f i d) (g i d2)" and "R dev dev2"
  shows "R (fold f xs dev) (fold g xs dev2)"
  using assms(2) by (induction xs arbitrary: dev dev2) (simp_all add: assms(1))

lemma digit_pass_same_data:
  assumes "same_data dev dev2"
  shows "same_data (digit_pass d lo hi b e src dst dev) (digit_pass d lo hi b e src dst dev2)"
  using assms by (simp add: same_data_def digit_pass_mem segment_pairs_def)

lemma radix_passes_same_data:
  assumes "same_data dev dev2"
  shows "same_data (radix_passes d bufs b e endb f t p ws dev)
                   (radix_passes d bufs b e endb f t p ws dev2)"
  using assms
  by (induction ws arbitrary: f t p dev dev2) (simp_all add: Let_def digit_pass_same_data)

lemma segmented_sort_same_data:
  assumes "same_data dev dev2"
  shows "same_data (segmented_sort cfg d args bo eo i dev) (segmented_sort cfg d args bo eo i dev2)"
  unfolding segmented_sort_def using assms by (rule radix_passes_same_data)

lemma segmented_sort_small_same_data:
  assumes "same_data dev dev2"
  shows "same_data (segmented_sort_small d args bo eo i dev)
                   (segmented_sort_small d args bo eo i dev2)"
  unfolding segmented_sort_small_def using assms by (rule digit_pass_same_data)

lemma run_uniform_same_data:
  assumes "same_data dev dev2"
  shows "same_data (run_kernel cfg d segmented_sort_kernel grid args bo eo dev)
                   (run_kernel cfg d segmented_sort_kernel grid args bo eo dev2)"
  unfolding run_uniform
  by (rule fold_rel[where R=same_data, OF segmented_sort_same_data assms])

lemma run_kernel_same_memory:
  fixes dev dev2 :: "('k::len word, 'v) device"
  assumes "same_memory dev dev2"
  shows "same_memory (run_kernel cfg d k grid args bo eo dev)
                     (run_kernel cfg d k grid args bo eo dev2)"
proof -
  have ix: "segment_index_at x args = segment_index_at y args" if "same_memory x y" for x y :: "('k word, 'v) device"
    using that by (intro ext) (simp add: segment_index_at_def same_memory_def)
  have l: "same_memory (segmented_sort cfg d args bo eo (segment_index_at x args i) x)
                       (segmented_sort cfg d args bo eo (segment_index_at y args i) y)"
    if "same_memory x y" for x y :: "('k word, 'v) device" and i
    using that ix[OF that]
    by (simp add: same_memory_def segmented_sort_frame segmented_sort_same_data)
  have u: "same_memory (segmented_sort cfg d args bo eo i x)
                       (segmented_sort cfg d args bo eo i y)"
    if "same_memory x y" for x y :: "('k word, 'v) device" and i
    using that by (simp add: same_memory_def segmented_sort_frame segmented_sort_same_data)
  have s: "same_memory
             (if i < unat (k_num_segments args)
              then segmented_sort_small d args bo eo (segment_index_at x args i) x else x)
             (if i < unat (k_num_segments args)
              then segmented_sort_small d args bo eo (segment_index_at y args i) y else y)"
    if "same_memory x y" for x y :: "('k word, 'v) device" and i
    using that ix[OF that]
    by (simp add: same_memory_def segmented_sort_small_frame segmented_sort_small_same_data)
  show ?thesis
  proof (cases k)
    case segmented_sort_kernel
    show ?thesis unfolding segmented_sort_kernel run_kernel_def kernel.case
      by (rule fold_rel[where R=same_memory, OF u assms])
  next
    case segmented_sort_large_kernel
    show ?thesis unfolding segmented_sort_large_kernel run_kernel_def kernel.case
      by (rule fold_rel[where R=same_memory, OF l assms])
  next
    case segmented_sort_small_kernel
    show ?thesis unfolding segmented_sort_small_kernel run_kernel_def kernel.case
      by (rule fold_rel[where R=same_memory, OF s assms])
  qed
qed

lemma partition_effect_same_memory:
  assumes "same_memory dev dev2"
  shows "same_memory (partition_effect out cnt n pred dev) (partition_effect out cnt n pred dev2)"
  using assms by (simp add: same_memory_def same_data_def partition_effect_def Let_def)

lemma digit_pass_other:
  "q \<noteq> fst dst \<Longrightarrow> keys_mem (digit_pass d lo hi b e src dst dev) q = keys_mem dev q"
  "q' \<noteq> snd dst \<Longrightarrow> values_mem (digit_pass d lo hi b e src dst dev) q' = values_mem dev q'"
  by (simp_all add: digit_pass_mem)

lemma radix_passes_other:
  "q \<noteq> keys_tmp bufs \<Longrightarrow> q \<noteq> keys_output bufs \<Longrightarrow>
     keys_mem (radix_passes d bufs b e endb f t p ws dev) q = keys_mem dev q"
  "q' \<noteq> values_tmp bufs \<Longrightarrow> q' \<noteq> values_output bufs \<Longrightarrow>
     values_mem (radix_passes d bufs b e endb f t p ws dev) q' = values_mem dev q'"
  by (induction ws arbitrary: f t p dev; simp add: Let_def digit_pass_other)+

lemma run_uniform_other:
  "q \<noteq> keys_tmp args \<Longrightarrow> q \<noteq> keys_output args \<Longrightarrow>
     keys_mem (run_kernel cfg d segmented_sort_kernel grid args bo eo dev) q = keys_mem dev q"
  "q' \<noteq> values_tmp args \<Longrightarrow> q' \<noteq> values_output args \<Longrightarrow>
     values_mem (run_kernel cfg d segmented_sort_kernel grid args bo eo dev) q' = values_mem dev q'"
  unfolding run_uniform
  by (rule fold_preserves[where g="\<lambda>d. keys_mem d q"], simp add: segmented_sort_def radix_passes_other,
      rule fold_preserves[where g="\<lambda>d. values_mem d q'"], simp add: segmented_sort_def radix_passes_other)

lemma run_uniform_outside:
  assumes "\<forall>i<unat grid. \<not> in_segment bo eo i j"
  shows "keys_mem (run_kernel cfg d segmented_sort_kernel grid args bo eo dev) q j = keys_mem dev q j"
    and "values_mem (run_kernel cfg d segmented_sort_kernel grid args bo eo dev) q' j
         = values_mem dev q' j"
proof -
  have a: "\<forall>i\<in>set [0..<unat grid]. \<not> in_segment bo eo i j" using assms by simp
  note f = fold_outside[where op="segmented_sort cfg d args bo eo" and bo=bo and eo=eo,
      OF segmented_sort_outside a, of dev q q']
  show "keys_mem (run_kernel cfg d segmented_sort_kernel grid args bo eo dev) q j = keys_mem dev q j"
    and "values_mem (run_kernel cfg d segmented_sort_kernel grid args bo eo dev) q' j
         = values_mem dev q' j"
    unfolding run_uniform using f by simp_all
qed

subsection \<open>The uniform path\<close>

lemma uniform_dispatch_ops:
  "\<exists>ops. device_ops (snd (uniform_dispatch cfg env d a wdb bufs dev)) = device_ops dev @ ops
     \<and> set ops \<subseteq> {StreamSynchronize,
          LaunchKernel segmented_sort_kernel (segments a) (sort_block_size cfg)
            (make_args bufs (to_output cfg wdb (end_bit a - begin_bit a)) 0 Null 0
               (long_iterations cfg (end_bit a - begin_bit a))
               (short_iterations cfg (end_bit a - begin_bit a)) (begin_bit a) (end_bit a))}"
  by (simp add: uniform_dispatch_cases Let_def run_kernel_frame)

lemma uniform_dispatch_index:
  "index_mem (snd (uniform_dispatch cfg env d a wdb bufs dev)) = index_mem dev"
  by (simp add: uniform_dispatch_cases Let_def run_kernel_frame)

lemma uniform_dispatch_mem:
  "keys_mem (snd (uniform_dispatch cfg env d a wdb bufs dev))
     = (if hip_result env UniformLaunch = hipSuccess
        then keys_mem (run_kernel cfg d segmented_sort_kernel (segments a)
               (make_args bufs (to_output cfg wdb (end_bit a - begin_bit a)) 0 Null 0
                  (long_iterations cfg (end_bit a - begin_bit a))
                  (short_iterations cfg (end_bit a - begin_bit a)) (begin_bit a) (end_bit a))
               (begin_offsets a) (end_offsets a) dev)
        else keys_mem dev)"
  "values_mem (snd (uniform_dispatch cfg env d a wdb bufs dev))
     = (if hip_result env UniformLaunch = hipSuccess
        then values_mem (run_kernel cfg d segmented_sort_kernel (segments a)
               (make_args bufs (to_output cfg wdb (end_bit a - begin_bit a)) 0 Null 0
                  (long_iterations cfg (end_bit a - begin_bit a))
                  (short_iterations cfg (end_bit a - begin_bit a)) (begin_bit a) (end_bit a))
               (begin_offsets a) (end_offsets a) dev)
        else values_mem dev)"
proof -
  let ?args = "make_args bufs (to_output cfg wdb (end_bit a - begin_bit a)) 0 Null 0
                  (long_iterations cfg (end_bit a - begin_bit a))
                  (short_iterations cfg (end_bit a - begin_bit a)) (begin_bit a) (end_bit a)"
  let ?dev1 = "dev\<lparr>device_ops := device_ops dev
                  @ [LaunchKernel segmented_sort_kernel (segments a) (sort_block_size cfg) ?args]\<rparr>"
  have "same_data ?dev1 dev" by (simp add: same_data_def)
  then have "same_data (run_kernel cfg d segmented_sort_kernel (segments a) ?args
                (begin_offsets a) (end_offsets a) ?dev1)
              (run_kernel cfg d segmented_sort_kernel (segments a) ?args
                (begin_offsets a) (end_offsets a) dev)"
    by (rule run_uniform_same_data)
  then show "keys_mem (snd (uniform_dispatch cfg env d a wdb bufs dev))
     = (if hip_result env UniformLaunch = hipSuccess
        then keys_mem (run_kernel cfg d segmented_sort_kernel (segments a) ?args
               (begin_offsets a) (end_offsets a) dev)
        else keys_mem dev)"
    and "values_mem (snd (uniform_dispatch cfg env d a wdb bufs dev))
     = (if hip_result env UniformLaunch = hipSuccess
        then values_mem (run_kernel cfg d segmented_sort_kernel (segments a) ?args
               (begin_offsets a) (end_offsets a) dev)
        else values_mem dev)"
    by (simp_all add: uniform_dispatch_cases Let_def same_data_def)
qed

lemma uniform_dispatch_status:
  "fst (uniform_dispatch cfg env d a wdb bufs dev)
   = first_failure env ([UniformLaunch] @ (if debug_synchronous a then [UniformSync] else []))"
  by (simp add: uniform_dispatch_cases Let_def)

lemma impl_uniform:
  assumes "temporary_storage a \<noteq> Null" and "segments a \<noteq> 0"
    and "\<not> do_partitioning cfg (segments a)"
  shows "segmented_radix_sort_impl cfg tp env d a bufs dev =
     (let res = is_result_in_output cfg (keys_tmp bufs \<noteq> Null) (end_bit a - begin_bit a)
      in if debug_synchronous a \<and> hip_result env DumpSync \<noteq> hipSuccess
         then \<lparr>status = hip_result env DumpSync, storage_size_out = storage_size a,
               result_in_output = res, device_out = debug_dump cfg a dev\<rparr>
         else \<lparr>status = fst (uniform_dispatch cfg env d a (keys_tmp bufs \<noteq> Null)
                          (fst (carve tp a bufs))
                          (if debug_synchronous a then debug_dump cfg a dev else dev)),
               storage_size_out = storage_size a, result_in_output = res,
               device_out = snd (uniform_dispatch cfg env d a (keys_tmp bufs \<noteq> Null)
                          (fst (carve tp a bufs))
                          (if debug_synchronous a then debug_dump cfg a dev else dev))\<rparr>)"
  using assms(3) by (simp add: impl_execute[OF assms(1,2)] Let_def)

lemma debug_dump_ops: "device_ops (debug_dump cfg a dev) = device_ops dev @ [StreamSynchronize]"
  by (simp add: debug_dump_def Let_def)

lemma impl_uniform_ops:
  assumes "temporary_storage a \<noteq> Null" and "segments a \<noteq> 0"
    and "\<not> do_partitioning cfg (segments a)"
  shows "\<exists>ops. device_ops (device_out (segmented_radix_sort_impl cfg tp env d a bufs dev))
               = device_ops dev @ ops
     \<and> set ops \<subseteq> {StreamSynchronize,
          LaunchKernel segmented_sort_kernel (segments a) (sort_block_size cfg)
            (make_args (fst (carve tp a bufs))
               (to_output cfg (keys_tmp bufs \<noteq> Null) (end_bit a - begin_bit a)) 0 Null 0
               (long_iterations cfg (end_bit a - begin_bit a))
               (short_iterations cfg (end_bit a - begin_bit a)) (begin_bit a) (end_bit a))}"
proof -
  let ?dev1 = "if debug_synchronous a then debug_dump cfg a dev else dev"
  let ?S = "{StreamSynchronize,
          LaunchKernel segmented_sort_kernel (segments a) (sort_block_size cfg)
            (make_args (fst (carve tp a bufs))
               (to_output cfg (keys_tmp bufs \<noteq> Null) (end_bit a - begin_bit a)) 0 Null 0
               (long_iterations cfg (end_bit a - begin_bit a))
               (short_iterations cfg (end_bit a - begin_bit a)) (begin_bit a) (end_bit a))}"
  obtain ops where ops: "device_ops (snd (uniform_dispatch cfg env d a (keys_tmp bufs \<noteq> Null)
        (fst (carve tp a bufs)) ?dev1)) = device_ops ?dev1 @ ops" "set ops \<subseteq> ?S"
    using uniform_dispatch_ops[of cfg env d a "keys_tmp bufs \<noteq> Null" "fst (carve tp a bufs)" ?dev1]
    by blast
  show ?thesis
  proof (cases "debug_synchronous a")
    case False
    then show ?thesis using ops by (simp add: impl_uniform[OF assms] Let_def)
  next
    case True
    show ?thesis
    proof (cases "hip_result env DumpSync = hipSuccess")
      case ok: True
      have "device_ops (device_out (segmented_radix_sort_impl cfg tp env d a bufs dev))
            = device_ops dev @ (StreamSynchronize # ops)"
        using ops(1) True ok by (simp add: impl_uniform[OF assms] Let_def debug_dump_ops)
      moreover have "set (StreamSynchronize # ops) \<subseteq> ?S" using ops(2) by simp
      ultimately show ?thesis by blast
    next
      case bad: False
      have "device_ops (device_out (segmented_radix_sort_impl cfg tp env d a bufs dev))
            = device_ops dev @ [StreamSynchronize]"
        using True bad by (simp add: impl_uniform[OF assms] Let_def debug_dump_ops)
      moreover have "set [StreamSynchronize] \<subseteq> ?S" by simp
      ultimately show ?thesis by blast
    qed
  qed
qed

lemma impl_uniform_index:
  assumes "temporary_storage a \<noteq> Null" and "segments a \<noteq> 0"
    and "\<not> do_partitioning cfg (segments a)"
  shows "index_mem (device_out (segmented_radix_sort_impl cfg tp env d a bufs dev)) = index_mem dev"
  by (simp add: impl_uniform[OF assms] Let_def uniform_dispatch_index debug_dump_frame)

lemma impl_uniform_mem:
  fixes dev :: "('k::len word, 'v) device"
  assumes "temporary_storage a \<noteq> Null" and "segments a \<noteq> 0"
    and "\<not> do_partitioning cfg (segments a)"
  shows "same_data (device_out (segmented_radix_sort_impl cfg tp env d a bufs dev))
     (if (debug_synchronous a \<longrightarrow> hip_result env DumpSync = hipSuccess)
         \<and> hip_result env UniformLaunch = hipSuccess
      then run_kernel cfg d segmented_sort_kernel (segments a)
             (make_args (fst (carve tp a bufs))
                (to_output cfg (keys_tmp bufs \<noteq> Null) (end_bit a - begin_bit a)) 0 Null 0
                (long_iterations cfg (end_bit a - begin_bit a))
                (short_iterations cfg (end_bit a - begin_bit a)) (begin_bit a) (end_bit a))
             (begin_offsets a) (end_offsets a) dev
      else dev)"
proof -
  let ?args = "make_args (fst (carve tp a bufs))
                (to_output cfg (keys_tmp bufs \<noteq> Null) (end_bit a - begin_bit a)) 0 Null 0
                (long_iterations cfg (end_bit a - begin_bit a))
                (short_iterations cfg (end_bit a - begin_bit a)) (begin_bit a) (end_bit a)"
  have "same_data (debug_dump cfg a dev) dev" by (simp add: same_data_def debug_dump_frame)
  then have dd: "same_data (run_kernel cfg d segmented_sort_kernel (segments a) ?args
                   (begin_offsets a) (end_offsets a) (debug_dump cfg a dev))
                 (run_kernel cfg d segmented_sort_kernel (segments a) ?args
                   (begin_offsets a) (end_offsets a) dev)"
    by (rule run_uniform_same_data)
  show ?thesis
    using dd
    by (simp add: impl_uniform[OF assms] Let_def same_data_def uniform_dispatch_mem
        debug_dump_frame)
qed

lemma impl_uniform_status:
  assumes "temporary_storage a \<noteq> Null" and "segments a \<noteq> 0"
    and "\<not> do_partitioning cfg (segments a)"
  shows "status (segmented_radix_sort_impl cfg tp env d a bufs dev)
    = first_failure env ((if debug_synchronous a then [DumpSync] else []) @ [UniformLaunch]
         @ (if debug_synchronous a then [UniformSync] else []))"
  by (simp add: impl_uniform[OF assms] Let_def uniform_dispatch_status)

lemma in_segment_bound:
  assumes "valid_offsets a" and "i < unat (segments a)"
    and "in_segment (begin_offsets a) (end_offsets a) i j"
  shows "j < unat (size_items a)"
  using assms by (auto simp add: valid_offsets_def in_segment_def word_le_nat_alt)

lemma uniform_writes:
  fixes dev :: "('k::len word, 'v) device"
  assumes "temporary_storage a \<noteq> Null" and "segments a \<noteq> 0"
    and "\<not> do_partitioning cfg (segments a)"
    and r: "r = segmented_radix_sort_impl cfg tp env d a bufs dev"
  shows "keys_mem (device_out r) p j \<noteq> keys_mem dev p j \<Longrightarrow>
           (p = keys_tmp (fst (carve tp a bufs)) \<or> p = keys_output bufs)
           \<and> (\<exists>i<unat (segments a). in_segment (begin_offsets a) (end_offsets a) i j)"
    and "values_mem (device_out r) p j \<noteq> values_mem dev p j \<Longrightarrow>
           (p = values_tmp (fst (carve tp a bufs)) \<or> p = values_output bufs)
           \<and> (\<exists>i<unat (segments a). in_segment (begin_offsets a) (end_offsets a) i j)"
proof -
  let ?args = "make_args (fst (carve tp a bufs))
                (to_output cfg (keys_tmp bufs \<noteq> Null) (end_bit a - begin_bit a)) 0 Null 0
                (long_iterations cfg (end_bit a - begin_bit a))
                (short_iterations cfg (end_bit a - begin_bit a)) (begin_bit a) (end_bit a)"
  let ?run = "run_kernel cfg d segmented_sort_kernel (segments a) ?args
                (begin_offsets a) (end_offsets a) dev"
  note m = impl_uniform_mem[OF assms(1,2,3), of tp env d bufs dev, folded r, unfolded same_data_def]
  have ko: "keys_output (fst (carve tp a bufs)) = keys_output bufs"
    and vo: "values_output (fst (carve tp a bufs)) = values_output bufs"
    by (simp_all add: carve_def Let_def split: if_splits)
  have a: "keys_tmp ?args = keys_tmp (fst (carve tp a bufs))" "keys_output ?args = keys_output bufs"
    "values_tmp ?args = values_tmp (fst (carve tp a bufs))"
    "values_output ?args = values_output bufs"
    by (simp_all add: make_args_def ko vo)
  {
    assume ne: "keys_mem (device_out r) p j \<noteq> keys_mem dev p j"
    then have k: "keys_mem ?run p j \<noteq> keys_mem dev p j"
      using m by (auto split: if_splits)
    have "p \<noteq> keys_tmp (fst (carve tp a bufs)) \<and> p \<noteq> keys_output bufs
          \<longrightarrow> keys_mem ?run p = keys_mem dev p"
      using run_uniform_other(1)[of p ?args cfg d "segments a" "begin_offsets a" "end_offsets a" dev]
      unfolding a by blast
    then have "p = keys_tmp (fst (carve tp a bufs)) \<or> p = keys_output bufs"
      using k by metis
    moreover have "\<exists>i<unat (segments a). in_segment (begin_offsets a) (end_offsets a) i j"
      using k run_uniform_outside(1)[of "segments a" "begin_offsets a" "end_offsets a" j cfg d
          ?args dev p]
      by metis
    ultimately show "(p = keys_tmp (fst (carve tp a bufs)) \<or> p = keys_output bufs)
           \<and> (\<exists>i<unat (segments a). in_segment (begin_offsets a) (end_offsets a) i j)"
      by simp
  }
  {
    assume ne: "values_mem (device_out r) p j \<noteq> values_mem dev p j"
    then have k: "values_mem ?run p j \<noteq> values_mem dev p j"
      using m by (auto split: if_splits)
    have "p \<noteq> values_tmp (fst (carve tp a bufs)) \<and> p \<noteq> values_output bufs
          \<longrightarrow> values_mem ?run p = values_mem dev p"
      using run_uniform_other(2)[of p ?args cfg d "segments a" "begin_offsets a" "end_offsets a" dev]
      unfolding a by blast
    then have "p = values_tmp (fst (carve tp a bufs)) \<or> p = values_output bufs"
      using k by metis
    moreover have "\<exists>i<unat (segments a). in_segment (begin_offsets a) (end_offsets a) i j"
      using k run_uniform_outside(2)[of "segments a" "begin_offsets a" "end_offsets a" j cfg d
          ?args dev p]
      by metis
    ultimately show "(p = values_tmp (fst (carve tp a bufs)) \<or> p = values_output bufs)
           \<and> (\<exists>i<unat (segments a). in_segment (begin_offsets a) (end_offsets a) i j)"
      by simp
  }
qed

lemma uniform_independent:
  fixes dev dev2 :: "('k::len word, 'v) device"
  assumes "temporary_storage a \<noteq> Null" and "segments a \<noteq> 0"
    and "\<not> do_partitioning cfg (segments a)"
    and "same_data dev dev2"
  shows "status (segmented_radix_sort_impl cfg tp env d a bufs dev2)
         = status (segmented_radix_sort_impl cfg tp env d a bufs dev)"
    and "same_data (device_out (segmented_radix_sort_impl cfg tp env d a bufs dev))
           (device_out (segmented_radix_sort_impl cfg tp env d a bufs dev2))"
proof -
  show "status (segmented_radix_sort_impl cfg tp env d a bufs dev2)
         = status (segmented_radix_sort_impl cfg tp env d a bufs dev)"
    by (simp only: impl_uniform_status[OF assms(1,2,3)])
  note m1 = impl_uniform_mem[OF assms(1,2,3), of tp env d bufs dev]
  note m2 = impl_uniform_mem[OF assms(1,2,3), of tp env d bufs dev2]
  note rk = run_uniform_same_data[OF assms(4)]
  show "same_data (device_out (segmented_radix_sort_impl cfg tp env d a bufs dev))
           (device_out (segmented_radix_sort_impl cfg tp env d a bufs dev2))"
    using m1 m2 rk assms(4) unfolding same_data_def by (auto split: if_splits)
qed

lemma uniform_query:
  assumes "\<not> do_partitioning cfg (segments a)"
  shows "status (segmented_radix_sort_impl cfg tp env d (a\<lparr>temporary_storage := Null\<rparr>) bufs dev)
         = hipSuccess"
    and "storage_size_out
           (segmented_radix_sort_impl cfg tp env d (a\<lparr>temporary_storage := Null\<rparr>) bufs dev)
         = (if keys_tmp bufs \<noteq> Null \<or> keys_bytes tp a + values_bytes tp a = 0 then 4
            else keys_bytes tp a + values_bytes tp a)"
    and "device_out
           (segmented_radix_sort_impl cfg tp env d (a\<lparr>temporary_storage := Null\<rparr>) bufs dev)
         = dev"
  using assms
  by (simp_all add: impl_query query_storage_size_cases Let_def keys_bytes_def values_bytes_def)

lemma scratch_capacity:
  assumes "alignment tp \<noteq> 0"
    and "unat (size_items a) * unat s + unat (alignment tp) \<le> 2 ^ 64"
  shows "unat (size_items a) * unat s \<le> unat (align_size tp (ucast (size_items a) * s))"
proof -
  have u: "unat (ucast (size_items a) :: size_t) = unat (size_items a)"
  proof -
    have n32: "unat (size_items a) < 2 ^ 32" using unsigned_less[of "size_items a"] by simp
    have "unat (ucast (size_items a) :: size_t) = take_bit LENGTH(64) (unat (size_items a))"
      by (rule unsigned_ucast_eq)
    also have "\<dots> = unat (size_items a)"
    proof (rule take_bit_nat_eq_self)
      have "(2::nat) ^ 32 \<le> 2 ^ LENGTH(64)" by simp
      with n32 show "unat (size_items a) < 2 ^ LENGTH(64)" by linarith
    qed
    finally show ?thesis .
  qed
  have al: "0 < unat (alignment tp)" using assms(1) by (simp add: unat_gt_0)
  have lt: "unat (size_items a) * unat s < 2 ^ LENGTH(64)" using assms(2) al by simp
  have m: "unat (ucast (size_items a) * s :: size_t) = unat (size_items a) * unat s"
    using unat_mult_lem[THEN iffD1, of "ucast (size_items a) :: size_t" s] lt u by simp
  show ?thesis
    using unat_align_size_ge[OF assms(1), of "ucast (size_items a) * s"] assms(2) m by simp
qed

subsection \<open>The debug flag\<close>

lemma same_memory_log:
  "same_memory (dev\<lparr>device_ops := ops\<rparr>) dev2 = same_memory dev dev2"
  "same_memory dev (dev2\<lparr>device_ops := ops\<rparr>) = same_memory dev dev2"
  "same_memory (dev\<lparr>console := c\<rparr>) dev2 = same_memory dev dev2"
  "same_memory dev (dev2\<lparr>console := c\<rparr>) = same_memory dev dev2"
  by (simp_all add: same_memory_def same_data_def)

lemma launch_sync_debug:
  fixes dev dev2 :: "('k::len word, 'v) device"
  assumes sm: "same_memory dev dev2" and ok: "hip_result env ss = hipSuccess"
  shows "fst (hip_sync_and_return_on_error env b ls ss name n
            (hipLaunchKernelGGL env ls cfg d k grid block args bo eo dev))
         = fst (hip_sync_and_return_on_error env b' ls ss name n
            (hipLaunchKernelGGL env ls cfg d k grid block args bo eo dev2))"
    and "same_memory
           (snd (hip_sync_and_return_on_error env b ls ss name n
              (hipLaunchKernelGGL env ls cfg d k grid block args bo eo dev)))
           (snd (hip_sync_and_return_on_error env b' ls ss name n
              (hipLaunchKernelGGL env ls cfg d k grid block args bo eo dev2)))"
proof -
  have "same_memory (dev\<lparr>device_ops := device_ops dev @ [LaunchKernel k grid block args]\<rparr>)
          (dev2\<lparr>device_ops := device_ops dev2 @ [LaunchKernel k grid block args]\<rparr>)"
    using sm by (simp add: same_memory_log)
  then have rk: "same_memory
      (run_kernel cfg d k grid args bo eo
         (dev\<lparr>device_ops := device_ops dev @ [LaunchKernel k grid block args]\<rparr>))
      (run_kernel cfg d k grid args bo eo
         (dev2\<lparr>device_ops := device_ops dev2 @ [LaunchKernel k grid block args]\<rparr>))"
    by (rule run_kernel_same_memory)
  show "fst (hip_sync_and_return_on_error env b ls ss name n
            (hipLaunchKernelGGL env ls cfg d k grid block args bo eo dev))
         = fst (hip_sync_and_return_on_error env b' ls ss name n
            (hipLaunchKernelGGL env ls cfg d k grid block args bo eo dev2))"
    using ok by (simp add: launch_sync_cases Let_def)
  show "same_memory
           (snd (hip_sync_and_return_on_error env b ls ss name n
              (hipLaunchKernelGGL env ls cfg d k grid block args bo eo dev)))
           (snd (hip_sync_and_return_on_error env b' ls ss name n
              (hipLaunchKernelGGL env ls cfg d k grid block args bo eo dev2)))"
    using ok rk sm by (simp add: launch_sync_cases Let_def same_memory_log)
qed

lemma uniform_dispatch_debug:
  fixes dev dev2 :: "('k::len word, 'v) device"
  assumes sm: "same_memory dev dev2" and ok: "hip_result env UniformSync = hipSuccess"
  shows "fst (uniform_dispatch cfg env d (a\<lparr>debug_synchronous := b\<rparr>) wdb bufs dev)
         = fst (uniform_dispatch cfg env d a wdb bufs dev2)"
    and "same_memory (snd (uniform_dispatch cfg env d (a\<lparr>debug_synchronous := b\<rparr>) wdb bufs dev))
           (snd (uniform_dispatch cfg env d a wdb bufs dev2))"
  unfolding uniform_dispatch_def Let_def
  using launch_sync_debug[OF sm ok, of b UniformLaunch "''segmented_sort''" "segments a" cfg d
      segmented_sort_kernel "segments a" "sort_block_size cfg" _ "begin_offsets a" "end_offsets a"
      "debug_synchronous a"]
  by simp_all

lemma partitioned_dispatch_debug:
  fixes dev dev2 :: "('k::len word, 'v) device"
  assumes sm: "same_memory dev dev2" and ps: "ps \<noteq> Null"
    and okl: "hip_result env LargeSync = hipSuccess"
    and oks: "hip_result env SmallSync = hipSuccess"
  shows "fst (partitioned_dispatch cfg env d (a\<lparr>debug_synchronous := b\<rparr>) wdb bufs pi pc ps dev)
         = fst (partitioned_dispatch cfg env d a wdb bufs pi pc ps dev2)
       \<and> same_memory
           (snd (partitioned_dispatch cfg env d (a\<lparr>debug_synchronous := b\<rparr>) wdb bufs pi pc ps dev))
           (snd (partitioned_dispatch cfg env d a wdb bufs pi pc ps dev2))"
proof -
  let ?a = "a\<lparr>debug_synchronous := b\<rparr>"
  have sel: "selector_of cfg ?a = selector_of cfg a" by (simp add: selector_of_def)
  have upd: "segments ?a = segments a" "begin_bit ?a = begin_bit a" "end_bit ?a = end_bit a"
    "begin_offsets ?a = begin_offsets a" "end_offsets ?a = end_offsets a"
    "debug_synchronous ?a = b"
    by simp_all
  have pe: "same_memory (partition_effect pi pc (segments a) (selector_of cfg a) dev)
              (partition_effect pi pc (segments a) (selector_of cfg a) dev2)"
    using sm by (rule partition_effect_same_memory)
  show ?thesis
  proof (cases "hip_result env PartitionRun = hipSuccess")
    case False
    show ?thesis
      unfolding partitioned_dispatch_partition_fails[OF ps False]
      using sm by (simp add: same_memory_log)
  next
    case p: True
    show ?thesis
    proof (cases "hip_result env CountMemcpy = hipSuccess")
      case False
      show ?thesis
        unfolding partitioned_dispatch_memcpy_fails[OF ps p False]
        using pe by (simp add: same_memory_log sel)
    next
      case m: True
      show ?thesis
      proof (cases "hip_result env CountSync = hipSuccess")
        case False
        show ?thesis
          unfolding partitioned_dispatch_sync_fails[OF ps p m False]
          using pe by (simp add: same_memory_log sel)
      next
        case s: True
        let ?bits = "end_bit a - begin_bit a"
        define dev3 where "dev3 = (partition_effect pi pc (segments a) (selector_of cfg a) dev)
                   \<lparr>device_ops := device_ops dev
                      @ [PartitionCall ps 0 pi pc (segments a), MemcpyDeviceToHost pc,
                         StreamSynchronize]\<rparr>"
        define dev3' where "dev3' = (partition_effect pi pc (segments a) (selector_of cfg a) dev2)
                   \<lparr>device_ops := device_ops dev2
                      @ [PartitionCall ps 0 pi pc (segments a), MemcpyDeviceToHost pc,
                         StreamSynchronize]\<rparr>"
        have sm3: "same_memory dev3 dev3'"
          unfolding dev3_def dev3'_def using pe by (simp add: same_memory_log)
        define lcount where "lcount = index_mem dev3 pc 0"
        have lc: "index_mem dev3' pc 0 = lcount"
          using sm3 by (simp add: lcount_def same_memory_def)
        define largs where "largs = make_args bufs (to_output cfg wdb ?bits) 0 pi 0
                             (long_iterations cfg ?bits) (short_iterations cfg ?bits)
                             (begin_bit a) (end_bit a)"
        define sargs where "sargs = make_args bufs (is_result_in_output cfg wdb ?bits)
                               (segments a - lcount) pi lcount 0 0 (begin_bit a) (end_bit a)"
        define r1 where "r1 = (if lcount > 0
                then hip_sync_and_return_on_error env b LargeLaunch LargeSync
                       ''segmented_sort:large_segments'' lcount
                       (hipLaunchKernelGGL env LargeLaunch cfg d segmented_sort_large_kernel
                          lcount (sort_block_size cfg) largs
                          (begin_offsets a) (end_offsets a) dev3)
                else (hipSuccess, dev3))"
        define r1' where "r1' = (if lcount > 0
                then hip_sync_and_return_on_error env (debug_synchronous a) LargeLaunch LargeSync
                       ''segmented_sort:large_segments'' lcount
                       (hipLaunchKernelGGL env LargeLaunch cfg d segmented_sort_large_kernel
                          lcount (sort_block_size cfg) largs
                          (begin_offsets a) (end_offsets a) dev3')
                else (hipSuccess, dev3'))"
        have r1: "fst r1 = fst r1'" "same_memory (snd r1) (snd r1')"
          unfolding r1_def r1'_def
          using launch_sync_debug[OF sm3 okl, of b LargeLaunch "''segmented_sort:large_segments''"
              lcount cfg d segmented_sort_large_kernel lcount "sort_block_size cfg" largs
              "begin_offsets a" "end_offsets a" "debug_synchronous a"] sm3
          by simp_all
        define r2 where "r2 = (if segments a - lcount > 0
                  then hip_sync_and_return_on_error env b SmallLaunch SmallSync
                         ''segmented_sort:small_segments'' (segments a - lcount)
                         (hipLaunchKernelGGL env SmallLaunch cfg d segmented_sort_small_kernel
                            (ceiling_div (segments a - lcount) (small_segments_per_block cfg))
                            (block_size (warp_sort cfg)) sargs
                            (begin_offsets a) (end_offsets a) (snd r1))
                  else (hipSuccess, snd r1))"
        define r2' where "r2' = (if segments a - lcount > 0
                  then hip_sync_and_return_on_error env (debug_synchronous a) SmallLaunch SmallSync
                         ''segmented_sort:small_segments'' (segments a - lcount)
                         (hipLaunchKernelGGL env SmallLaunch cfg d segmented_sort_small_kernel
                            (ceiling_div (segments a - lcount) (small_segments_per_block cfg))
                            (block_size (warp_sort cfg)) sargs
                            (begin_offsets a) (end_offsets a) (snd r1'))
                  else (hipSuccess, snd r1'))"
        have r2: "fst r2 = fst r2'" "same_memory (snd r2) (snd r2')"
          unfolding r2_def r2'_def
          using launch_sync_debug[OF r1(2) oks, of b SmallLaunch
              "''segmented_sort:small_segments''" "segments a - lcount" cfg d
              segmented_sort_small_kernel
              "ceiling_div (segments a - lcount) (small_segments_per_block cfg)"
              "block_size (warp_sort cfg)" sargs
              "begin_offsets a" "end_offsets a" "debug_synchronous a"] r1(2)
          by simp_all
        have pd: "partitioned_dispatch cfg env d ?a wdb bufs pi pc ps dev
                  = (if fst r1 \<noteq> hipSuccess then r1 else r2)"
          unfolding partitioned_dispatch_ok[OF ps p m s] Let_def
          unfolding upd sel dev3_def[symmetric]
          unfolding lcount_def[symmetric]
          unfolding largs_def[symmetric] sargs_def[symmetric]
          unfolding r1_def[symmetric]
          unfolding r2_def[symmetric]
          by (rule refl)
        have pd': "partitioned_dispatch cfg env d a wdb bufs pi pc ps dev2
                  = (if fst r1' \<noteq> hipSuccess then r1' else r2')"
          unfolding partitioned_dispatch_ok[OF ps p m s] Let_def
          unfolding dev3'_def[symmetric]
          unfolding lc
          unfolding largs_def[symmetric] sargs_def[symmetric]
          unfolding r1'_def[symmetric]
          unfolding r2'_def[symmetric]
          by (rule refl)
        show ?thesis unfolding pd pd' using r1 r2 by simp
      qed
    qed
  qed
qed

lemma same_memory_refl: "same_memory dev dev"
  by (simp add: same_memory_def same_data_def)

lemma same_memory_dump:
  "same_memory (debug_dump cfg a dev) dev2 = same_memory dev dev2"
  "same_memory dev (debug_dump cfg a dev2) = same_memory dev dev2"
  by (simp_all add: same_memory_def same_data_def debug_dump_frame)

lemma debug_flag_bytes:
  "keys_bytes tp (a\<lparr>debug_synchronous := b\<rparr>) = keys_bytes tp a"
  "values_bytes tp (a\<lparr>debug_synchronous := b\<rparr>) = values_bytes tp a"
  "segment_indices_bytes tp (a\<lparr>debug_synchronous := b\<rparr>) = segment_indices_bytes tp a"
  "selector_of cfg (a\<lparr>debug_synchronous := b\<rparr>) = selector_of cfg a"
  by (simp_all add: keys_bytes_def values_bytes_def segment_indices_bytes_def selector_of_def)

lemma debug_flag_unread:
  "carve tp (a\<lparr>debug_synchronous := b\<rparr>) bufs = carve tp a bufs"
  "query_storage_size cfg tp env (a\<lparr>debug_synchronous := b\<rparr>) bufs dev
   = query_storage_size cfg tp env a bufs dev"
  by (simp_all add: carve_def query_storage_size_cases debug_flag_bytes Let_def)

lemma impl_debug:
  fixes dev :: "('k::len word, 'v) device"
  assumes okd: "hip_result env DumpSync = hipSuccess"
    and okl: "hip_result env LargeSync = hipSuccess"
    and oks: "hip_result env SmallSync = hipSuccess"
    and oku: "hip_result env UniformSync = hipSuccess"
  shows "status (segmented_radix_sort_impl cfg tp env d (a\<lparr>debug_synchronous := b\<rparr>) bufs dev)
         = status (segmented_radix_sort_impl cfg tp env d a bufs dev)"
    and "storage_size_out
           (segmented_radix_sort_impl cfg tp env d (a\<lparr>debug_synchronous := b\<rparr>) bufs dev)
         = storage_size_out (segmented_radix_sort_impl cfg tp env d a bufs dev)"
    and "same_memory
           (device_out (segmented_radix_sort_impl cfg tp env d (a\<lparr>debug_synchronous := b\<rparr>)
              bufs dev))
           (device_out (segmented_radix_sort_impl cfg tp env d a bufs dev))"
proof -
  let ?a = "a\<lparr>debug_synchronous := b\<rparr>"
  let ?r = "segmented_radix_sort_impl cfg tp env d ?a bufs dev"
  let ?r' = "segmented_radix_sort_impl cfg tp env d a bufs dev"
  have "status ?r = status ?r' \<and> storage_size_out ?r = storage_size_out ?r'
        \<and> same_memory (device_out ?r) (device_out ?r')"
  proof (cases "temporary_storage a = Null")
    case True
    then have "?r = ?r'" by (simp add: impl_query debug_flag_unread)
    then show ?thesis by (simp add: same_memory_refl)
  next
    case exec: False
    then have exec': "temporary_storage ?a \<noteq> Null" by simp
    show ?thesis
    proof (cases "segments a = 0")
      case True
      then show ?thesis
        using exec by (simp add: impl_zero_segments same_memory_refl)
    next
      case nz: False
      then have nz': "segments ?a \<noteq> 0" by simp
      let ?dev1 = "if b then debug_dump cfg ?a dev else dev"
      let ?dev1' = "if debug_synchronous a then debug_dump cfg a dev else dev"
      have sm: "same_memory ?dev1 ?dev1'"
        by (simp add: same_memory_dump same_memory_refl)
      obtain b1 p1 p2 p3 where c: "carve tp a bufs = (b1, p1, p2, p3)"
        by (cases "carve tp a bufs") auto
      have p3: "p3 \<noteq> Null" using carve_not_Null(3)[OF exec c] .
      show ?thesis
      proof (cases "do_partitioning cfg (segments a)")
        case True
        note pd = partitioned_dispatch_debug[OF sm p3 okl oks, where cfg=cfg and d=d and a=a
            and b=b and wdb="keys_tmp bufs \<noteq> Null" and bufs=b1 and pi=p1 and pc=p2]
        show ?thesis
          using pd True
          by (simp add: impl_execute[OF exec' nz'] impl_execute[OF exec nz] Let_def okd
              debug_flag_unread c)
      next
        case False
        note ud = uniform_dispatch_debug[OF sm oku, where cfg=cfg and d=d and a=a
            and b=b and wdb="keys_tmp bufs \<noteq> Null" and bufs=b1]
        show ?thesis
          using ud False
          by (simp add: impl_execute[OF exec' nz'] impl_execute[OF exec nz] Let_def okd
              debug_flag_unread c)
      qed
    qed
  qed
  then show "status ?r = status ?r'" and "storage_size_out ?r = storage_size_out ?r'"
    and "same_memory (device_out ?r) (device_out ?r')"
    by simp_all
qed

section \<open>Functional correctness of the sort\<close>



section \<open>The radix pass schedule\<close>

text \<open>
  C2 (as amended). For a positive long width and a short width not above it, the
  scheduler computes \<open>iterations = ceil(bits / long_width)\<close>,
  \<open>short_iterations = min(iterations, (long_width * iterations - bits) div
  (long_width - short_width))\<close> when the widths differ and 0 when they are equal, and
  \<open>long_iterations = iterations - short_iterations\<close>. The scheduled widths cover the bit
  range: \<open>long_iterations * long_width + short_iterations * short_width \<ge> bits\<close>, with
  equality exactly when the shortened passes take up the whole excess
  \<open>long_width * iterations - bits\<close>.
\<close>

theorem radix_pass_schedule:
  assumes "0 < long_radix_bits cfg" and "short_radix_bits cfg \<le> long_radix_bits cfg"
  shows "unat bits \<le> unat (iterations cfg bits) * unat (long_radix_bits cfg)
       \<and> unat (iterations cfg bits) * unat (long_radix_bits cfg)
            < unat bits + unat (long_radix_bits cfg)
       \<and> unat (short_iterations cfg bits) =
          (if unat (long_radix_bits cfg) \<noteq> unat (short_radix_bits cfg)
           then min (unat (iterations cfg bits))
                 ((unat (iterations cfg bits) * unat (long_radix_bits cfg) - unat bits)
                   div (unat (long_radix_bits cfg) - unat (short_radix_bits cfg)))
           else 0)
       \<and> unat (long_iterations cfg bits)
            = unat (iterations cfg bits) - unat (short_iterations cfg bits)
       \<and> unat bits \<le> unat (long_iterations cfg bits) * unat (long_radix_bits cfg)
            + unat (short_iterations cfg bits) * unat (short_radix_bits cfg)
       \<and> (unat (long_iterations cfg bits) * unat (long_radix_bits cfg)
            + unat (short_iterations cfg bits) * unat (short_radix_bits cfg) = unat bits
          \<longleftrightarrow> unat (short_iterations cfg bits)
                * (unat (long_radix_bits cfg) - unat (short_radix_bits cfg))
              = unat (iterations cfg bits) * unat (long_radix_bits cfg) - unat bits)"
proof -
  from assms(1) have nz: "long_radix_bits cfg \<noteq> 0" by (simp add: word_gt_0)
  note b = unat_iterations_bounds[OF nz, of bits]
  note sum = schedule_sum_plus[OF nz assms(2), of bits]
  note sh = short_shrink_le_excess[OF nz assms(2), of bits]
  have cover: "unat bits \<le> unat (long_iterations cfg bits) * unat (long_radix_bits cfg)
            + unat (short_iterations cfg bits) * unat (short_radix_bits cfg)"
    using b(1) sum sh by linarith
  have exact: "unat (long_iterations cfg bits) * unat (long_radix_bits cfg)
            + unat (short_iterations cfg bits) * unat (short_radix_bits cfg) = unat bits
          \<longleftrightarrow> unat (short_iterations cfg bits)
                * (unat (long_radix_bits cfg) - unat (short_radix_bits cfg))
              = unat (iterations cfg bits) * unat (long_radix_bits cfg) - unat bits"
    using b(1) sum sh by linarith
  show ?thesis
    using b cover exact unat_short_iterations[OF nz assms(2), of bits]
      unat_long_iterations[of cfg bits]
    by blast
qed

lemma schedule_cfg76_8:
  "iterations cfg76 8 = 2" "short_iterations cfg76 8 = 2" "long_iterations cfg76 8 = 0"
  by (simp_all add: cfg76_def long_iterations_def short_iterations_def iterations_def
      ceiling_div_def radix_bits_diff_def)

theorem radix_pass_schedule_witness:
  "0 < long_radix_bits cfg76 \<and> short_radix_bits cfg76 \<le> long_radix_bits cfg76 \<and>
    unat (32::u32) \<le> unat (long_iterations cfg76 32) * unat (long_radix_bits cfg76)
            + unat (short_iterations cfg76 32) * unat (short_radix_bits cfg76)"
proof -
  have h1: "0 < long_radix_bits cfg76" by (simp add: cfg76_def)
  have h2: "short_radix_bits cfg76 \<le> long_radix_bits cfg76" by (simp add: cfg76_def)
  show ?thesis using radix_pass_schedule[OF h1 h2, of 32] h1 h2 by blast
qed

text \<open>
  The claim as stated fails: with 7-bit long and 6-bit short passes, 8 bits are scheduled
  as two short passes, whose widths add up to 12.
\<close>

theorem radix_pass_schedule_sum_counterexample:
  "(0::u32) < 8 \<and> 0 < short_radix_bits cfg76
   \<and> short_radix_bits cfg76 \<le> long_radix_bits cfg76
   \<and> unat (long_iterations cfg76 8) * unat (long_radix_bits cfg76)
     + unat (short_iterations cfg76 8) * unat (short_radix_bits cfg76) \<noteq> unat (8::u32)"
  by (simp add: schedule_cfg76_8) (simp add: cfg76_def)

section \<open>Output location and buffer swap\<close>

lemma sort_double_buffer_handles:
  "snd (sort_double_buffer cfg tp env d a keys vals dev) =
     (if temporary_storage a \<noteq> Null
         \<and> is_result_in_output cfg (current keys \<noteq> Null) (end_bit a - begin_bit a)
      then (swap keys, swap vals) else (keys, vals))"
  by (simp add: sort_double_buffer_def Let_def impl_result_flag)

text \<open>
  C3. The output-location flags are \<open>to_output = with_double_buffer \<or> (iterations - 1)
  is even\<close> and \<open>is_result_in_output = ((iterations is even) \<noteq> to_output)\<close>, where
  \<open>with_double_buffer\<close> is the test \<^verbatim>\<open>keys_tmp != nullptr\<close>; the function reports the
  second flag on every path; and each double-buffer entry point swaps its handles exactly
  when the temporary storage is not null and that flag is set.
\<close>

theorem output_location_flags_and_swap:
  "to_output cfg with_double_buffer bits
      = (with_double_buffer \<or> even (int (unat (iterations cfg bits)) - 1))
   \<and> is_result_in_output cfg with_double_buffer bits
      = (even (unat (iterations cfg bits)) \<noteq> to_output cfg with_double_buffer bits)
   \<and> result_in_output (segmented_radix_sort_impl cfg tp env d a bufs dev)
      = is_result_in_output cfg (keys_tmp bufs \<noteq> Null) (end_bit a - begin_bit a)
   \<and> snd (segmented_radix_sort_keys_db cfg tp env a keys (dev1 :: ('k::len word, unit) device))
      = (if temporary_storage a \<noteq> Null
            \<and> is_result_in_output cfg (current keys \<noteq> Null) (end_bit a - begin_bit a)
         then swap keys else keys)
   \<and> snd (segmented_radix_sort_keys_desc_db cfg tp env a keys dev1)
      = (if temporary_storage a \<noteq> Null
            \<and> is_result_in_output cfg (current keys \<noteq> Null) (end_bit a - begin_bit a)
         then swap keys else keys)
   \<and> snd (segmented_radix_sort_pairs_db cfg tp env a keys vals (dev :: ('k word, 'v) device))
      = (if temporary_storage a \<noteq> Null
            \<and> is_result_in_output cfg (current keys \<noteq> Null) (end_bit a - begin_bit a)
         then (swap keys, swap vals) else (keys, vals))
   \<and> snd (segmented_radix_sort_pairs_desc_db cfg tp env a keys vals dev)
      = (if temporary_storage a \<noteq> Null
            \<and> is_result_in_output cfg (current keys \<noteq> Null) (end_bit a - begin_bit a)
         then (swap keys, swap vals) else (keys, vals))"
proof -
  have keys_db: "snd (segmented_radix_sort_keys_db cfg tp env a keys dev1)
      = fst (snd (sort_double_buffer cfg (tp\<lparr>with_values := False\<rparr>) env False a keys
                    null_values dev1))"
    by (simp add: segmented_radix_sort_keys_db_def split: prod.splits)
  have keys_desc_db: "snd (segmented_radix_sort_keys_desc_db cfg tp env a keys dev1)
      = fst (snd (sort_double_buffer cfg (tp\<lparr>with_values := False\<rparr>) env True a keys
                    null_values dev1))"
    by (simp add: segmented_radix_sort_keys_desc_db_def split: prod.splits)
  have c1: "to_output cfg with_double_buffer bits
      = (with_double_buffer \<or> even (int (unat (iterations cfg bits)) - 1))"
    unfolding to_output_parity using odd_int_pred[of "unat (iterations cfg bits)"] by blast
  have c4: "snd (segmented_radix_sort_keys_db cfg tp env a keys dev1)
      = (if temporary_storage a \<noteq> Null
            \<and> is_result_in_output cfg (current keys \<noteq> Null) (end_bit a - begin_bit a)
         then swap keys else keys)"
    unfolding keys_db sort_double_buffer_handles by simp
  have c5: "snd (segmented_radix_sort_keys_desc_db cfg tp env a keys dev1)
      = (if temporary_storage a \<noteq> Null
            \<and> is_result_in_output cfg (current keys \<noteq> Null) (end_bit a - begin_bit a)
         then swap keys else keys)"
    unfolding keys_desc_db sort_double_buffer_handles by simp
  show ?thesis
    unfolding segmented_radix_sort_pairs_db_def segmented_radix_sort_pairs_desc_db_def
    using c1 c4 c5 is_result_in_output_parity[of cfg with_double_buffer bits]
      impl_result_flag[of cfg tp env d a bufs dev]
      sort_double_buffer_handles[of cfg tp env False a keys vals dev]
      sort_double_buffer_handles[of cfg tp env True a keys vals dev]
    by blast
qed

lemma is_result_cfg76_7: "is_result_in_output cfg76 True 7 = True"
  by (simp add: is_result_in_output_def to_output_def iterations_def ceiling_div_def cfg76_def)

theorem output_location_flags_and_swap_witness:
  "snd (segmented_radix_sort_pairs_db cfg76 tp14 env_ok (call8\<lparr>end_bit := 7\<rparr>) keys8 values8 dev8)
     = (swap keys8, swap values8)"
  using output_location_flags_and_swap[where cfg=cfg76 and a="call8\<lparr>end_bit := 7\<rparr>"
    and keys=keys8 and vals=values8 and tp=tp14 and env=env_ok and dev=dev8]
  by (simp add: is_result_cfg76_7 call8_def keys8_def)

section \<open>The storage-size query\<close>

subsection \<open>The sizes of the example\<close>

lemma call8_query_facts:
  "temporary_storage call8_query = Null" "segments call8_query = 3"
  "size_items call8_query = 8" "keys_tmp bufs8 = Null" "with_values tp14"
  "sizeof_key tp14 = 1" "sizeof_value tp14 = 4"
  by (simp_all add: call8_query_def call8_def bufs8_def tp14_def)

lemma sizes_call8_query:
  "align_size tp14 (ucast (size_items call8_query) * sizeof_key tp14) = 256"
  "align_size tp14 (ucast (size_items call8_query) * sizeof_value tp14) = 256"
  "align_size tp14 (ucast (segments call8_query) * 4) = 256"
  "align_size tp14 4 = 256"
  by (simp_all add: call8_query_facts align_size_tp14)

text \<open>
  C4, with the outcome of the nested sizing call of the partition primitive taken into
  account. Take a call with a null temporary storage. When classification will not run,
  or the sizing call of the partition primitive succeeds, the call returns success and
  reports the sum of the aligned key scratch and the aligned value scratch (the latter
  only with values; both only without a caller-supplied double buffer) and, when
  classification will run, the aligned segment-index scratch, the aligned counter and
  the size the partition primitive asks for; a sum of zero is replaced by 4, so the
  reported size is positive. When classification will run and the sizing call of the
  partition primitive fails, the call returns that error and the reported size is the
  sum without the size of the partition primitive and without the replacement of zero.
  In every case the call leaves the key, value and index memory as it was, launches no
  kernel and calls the partition primitive at most once, with a null storage.
\<close>

theorem storage_size_query:
  assumes "temporary_storage a = Null"
  shows "let r = segmented_radix_sort_impl cfg tp env d a bufs dev;
             scratch = (if keys_tmp bufs \<noteq> Null then 0
                        else align_size tp (ucast (size_items a) * sizeof_key tp)
                             + (if with_values tp
                                then align_size tp (ucast (size_items a) * sizeof_value tp)
                                else 0));
             regions = align_size tp (ucast (segments a) * 4) + align_size tp 4;
             total = scratch + (if do_partitioning cfg (segments a)
                                then regions + partition_storage_required env else 0)
         in (\<not> do_partitioning cfg (segments a) \<or> hip_result env PartitionQuery = hipSuccess
               \<longrightarrow> status r = hipSuccess
                   \<and> storage_size_out r = (if total = 0 then 4 else total)
                   \<and> 0 < storage_size_out r)
            \<and> (do_partitioning cfg (segments a) \<and> hip_result env PartitionQuery \<noteq> hipSuccess
               \<longrightarrow> status r = hip_result env PartitionQuery
                   \<and> storage_size_out r = scratch + regions)
            \<and> keys_mem (device_out r) = keys_mem dev
            \<and> values_mem (device_out r) = values_mem dev
            \<and> index_mem (device_out r) = index_mem dev
            \<and> launches (device_ops (device_out r)) = launches (device_ops dev)
            \<and> partition_calls (device_ops (device_out r))
                = partition_calls (device_ops dev)
                  @ (if do_partitioning cfg (segments a)
                     then [PartitionCall Null 0 Null Null (segments a)] else [])"
  unfolding impl_query[OF assms] query_storage_size_cases
  by (simp add: Let_def launches_simps partition_calls_simps keys_bytes_def values_bytes_def
      segment_indices_bytes_def large_segment_count_bytes_def word_gt_0 add.assoc)

theorem storage_size_query_witness:
  "temporary_storage call8_query = Null
   \<and> hip_result env_ok PartitionQuery = hipSuccess
   \<and> status (segmented_radix_sort_impl cfg76 tp14 env_ok False call8_query bufs8 dev8)
       = hipSuccess
   \<and> storage_size_out (segmented_radix_sort_impl cfg76 tp14 env_ok False call8_query bufs8 dev8)
       = 2048
   \<and> do_partitioning cfg76 (segments call8_query)
   \<and> hip_result (env_failing PartitionQuery) PartitionQuery \<noteq> hipSuccess
   \<and> status (segmented_radix_sort_impl cfg76 tp14 (env_failing PartitionQuery) False
         call8_query bufs8 dev8) = hipError 1
   \<and> storage_size_out (segmented_radix_sort_impl cfg76 tp14 (env_failing PartitionQuery) False
         call8_query bufs8 dev8) = 1024"
proof -
  have q: "temporary_storage call8_query = Null" by (rule call8_query_facts)
  have ok: "hip_result env_ok PartitionQuery = hipSuccess" by (simp add: env_ok_def)
  have bad: "hip_result (env_failing PartitionQuery) PartitionQuery = hipError 1"
    by (simp add: env_failing_def)
  have dp: "do_partitioning cfg76 (segments call8_query)"
    by (simp add: call8_query_facts do_partitioning_cfg76_3)
  have req: "partition_storage_required env_ok = 1024" by (simp add: env_ok_def)
  have s: "status (segmented_radix_sort_impl cfg76 tp14 env_ok False call8_query bufs8 dev8)
             = hipSuccess
        \<and> storage_size_out
             (segmented_radix_sort_impl cfg76 tp14 env_ok False call8_query bufs8 dev8) = 2048"
    using storage_size_query[OF q, of cfg76 tp14 env_ok False bufs8 dev8] ok dp
    unfolding Let_def sizes_call8_query req by (simp add: call8_query_facts)
  have f: "status (segmented_radix_sort_impl cfg76 tp14 (env_failing PartitionQuery) False
             call8_query bufs8 dev8) = hipError 1
        \<and> storage_size_out (segmented_radix_sort_impl cfg76 tp14 (env_failing PartitionQuery)
             False call8_query bufs8 dev8) = 1024"
    using storage_size_query[OF q, of cfg76 tp14 "env_failing PartitionQuery" False bufs8 dev8]
      bad dp
    unfolding Let_def sizes_call8_query by (simp add: call8_query_facts)
  from q ok s dp bad f show ?thesis by simp
qed

text \<open>
  The size is not the full sum on every sizing call: when the sizing call of the
  partition primitive fails, the example call returns the error with a reported size
  of 1024, the sum without the 1024 bytes the partition primitive asks for, where the
  full sum is 2048.
\<close>

theorem failing_sizing_call_counterexample:
  "temporary_storage call8_query = Null
   \<and> keys_tmp bufs8 = Null \<and> with_values tp14 \<and> do_partitioning cfg76 (segments call8_query)
   \<and> align_size tp14 (ucast (size_items call8_query) * sizeof_key tp14)
       + align_size tp14 (ucast (size_items call8_query) * sizeof_value tp14)
       + (align_size tp14 (ucast (segments call8_query) * 4) + align_size tp14 4
          + partition_storage_required (env_failing PartitionQuery)) = 2048
   \<and> status (segmented_radix_sort_impl cfg76 tp14 (env_failing PartitionQuery) False
         call8_query bufs8 dev8) = hipError 1
   \<and> storage_size_out (segmented_radix_sort_impl cfg76 tp14 (env_failing PartitionQuery) False
         call8_query bufs8 dev8) = 1024"
proof -
  have q: "temporary_storage call8_query = Null" by (rule call8_query_facts)
  have dp: "do_partitioning cfg76 (segments call8_query)"
    by (simp add: call8_query_facts do_partitioning_cfg76_3)
  have bad: "hip_result (env_failing PartitionQuery) PartitionQuery = hipError 1"
    "partition_storage_required (env_failing PartitionQuery) = 1024"
    by (simp_all add: env_failing_def)
  have total: "align_size tp14 (ucast (size_items call8_query) * sizeof_key tp14)
       + align_size tp14 (ucast (size_items call8_query) * sizeof_value tp14)
       + (align_size tp14 (ucast (segments call8_query) * 4) + align_size tp14 4
          + partition_storage_required (env_failing PartitionQuery)) = 2048"
    unfolding sizes_call8_query bad by simp
  have b: "keys_bytes tp14 call8_query = 256" "values_bytes tp14 call8_query = 256"
    "segment_indices_bytes tp14 call8_query = 256" "large_segment_count_bytes tp14 = 256"
    by (simp_all add: keys_bytes_def values_bytes_def segment_indices_bytes_def
        large_segment_count_bytes_def call8_query_facts align_size_tp14)
  have r: "status (segmented_radix_sort_impl cfg76 tp14 (env_failing PartitionQuery) False
         call8_query bufs8 dev8) = hipError 1
   \<and> storage_size_out (segmented_radix_sort_impl cfg76 tp14 (env_failing PartitionQuery) False
         call8_query bufs8 dev8) = 1024"
    unfolding impl_query[OF q] query_storage_size_cases Let_def b
    using dp bad by (simp add: call8_query_facts)
  from q dp total r show ?thesis by (simp add: call8_query_facts)
qed

section \<open>C5: segments are classified by the capacity of a sub-group\<close>

text \<open>
  Claim C5, with the threshold the code uses. When classification runs (a call with
  segments for which \<open>do_partitioning\<close> holds) and every runtime call succeeds, the
  selector is the predicate ``segment length \<open>>\<close> threshold'' where the threshold is
  \<open>items_per_thread * logical_warp_size\<close>, the number of items one sub-group holds.
  The partition primitive is called once over the indices \<open>[0, segments)\<close>; after the
  call the index array holds the indices of the large segments in their original order
  followed by those of the small segments in their original order, and the counter
  holds the number of large segments. That number is the grid of the large-segment
  launch and the offset at which the small-segment launch starts reading the index
  array, so that every segment a sub-group of the small-segment kernel takes has a
  length of at most the threshold. The partition primitive and the kernels are modelled
  from the specification.
\<close>

theorem segment_classification:
  fixes dev :: "('k::len word, 'v) device"
  assumes "temporary_storage a \<noteq> Null" and "segments a \<noteq> 0"
    and "do_partitioning cfg (segments a)"
    and "\<forall>site. hip_result env site = hipSuccess"
    and "valid_alignment tp"
    and "carve tp a bufs = (b1, pi, pc, ps)"
  shows "let r = segmented_radix_sort_impl cfg tp env d a bufs dev;
             dev' = device_out r;
             bits = end_bit a - begin_bit a;
             wdb = (keys_tmp bufs \<noteq> Null);
             L = large_indices cfg a;
             S = small_indices cfg a;
             large_args = make_args b1 (to_output cfg wdb bits) 0 pi 0
                            (long_iterations cfg bits) (short_iterations cfg bits)
                            (begin_bit a) (end_bit a);
             small_args = make_args b1 (is_result_in_output cfg wdb bits)
                            (word_of_nat (length S)) pi (word_of_nat (length L)) 0 0
                            (begin_bit a) (end_bit a)
         in status r = hipSuccess
            \<and> max_small_segment_length cfg
                = items_per_thread (warp_sort cfg) * logical_warp_size (warp_sort cfg)
            \<and> (\<forall>i. selector_of cfg a i
                    = (max_small_segment_length cfg
                         < end_offsets a (unat i) - begin_offsets a (unat i)))
            \<and> L = filter (\<lambda>i. max_small_segment_length cfg
                                 < end_offsets a i - begin_offsets a i)
                     [0..<unat (segments a)]
            \<and> S = filter (\<lambda>i. end_offsets a i - begin_offsets a i
                                 \<le> max_small_segment_length cfg)
                     [0..<unat (segments a)]
            \<and> partition_calls (device_ops dev')
                = partition_calls (device_ops dev) @ [PartitionCall ps 0 pi pc (segments a)]
            \<and> map (\<lambda>j. unat (index_mem dev' pi j)) [0..<unat (segments a)] = L @ S
            \<and> index_mem dev' pc 0 = word_of_nat (length L)
            \<and> launches (device_ops dev')
                = launches (device_ops dev)
                  @ (if L = [] then []
                     else [LaunchKernel segmented_sort_large_kernel (word_of_nat (length L))
                             (sort_block_size cfg) large_args])
                  @ (if S = [] then []
                     else [LaunchKernel segmented_sort_small_kernel
                             (ceiling_div (word_of_nat (length S))
                                (small_segments_per_block cfg))
                             (block_size (warp_sort cfg)) small_args])
            \<and> (\<forall>w<length S.
                  segment_index_at dev' small_args w = S ! w
                  \<and> end_offsets a (S ! w) - begin_offsets a (S ! w)
                      \<le> max_small_segment_length cfg)"
proof -
  have ok: "\<And>site. hip_result env site = hipSuccess" using assms(4) by simp
  note ic = impl_classified[OF assms(1,2,3) ok assms(5,6) refl, where d=d and dev=dev]
  have sel: "\<forall>i. selector_of cfg a i
                    = (max_small_segment_length cfg
                         < end_offsets a (unat i) - begin_offsets a (unat i))"
    by (simp add: selector_of_def large_segment_selector_def Let_def)
  have small: "\<forall>w<length (small_indices cfg a).
      segment_index_at (device_out (segmented_radix_sort_impl cfg tp env d a bufs dev))
        (make_args b1
           (is_result_in_output cfg (keys_tmp bufs \<noteq> Null) (end_bit a - begin_bit a))
           (word_of_nat (length (small_indices cfg a))) pi
           (word_of_nat (length (large_indices cfg a))) 0 0 (begin_bit a) (end_bit a)) w
        = small_indices cfg a ! w
      \<and> end_offsets a (small_indices cfg a ! w) - begin_offsets a (small_indices cfg a ! w)
          \<le> max_small_segment_length cfg"
  proof (intro allI impI conjI)
    fix w assume w: "w < length (small_indices cfg a)"
    show "segment_index_at (device_out (segmented_radix_sort_impl cfg tp env d a bufs dev))
        (make_args b1
           (is_result_in_output cfg (keys_tmp bufs \<noteq> Null) (end_bit a - begin_bit a))
           (word_of_nat (length (small_indices cfg a))) pi
           (word_of_nat (length (large_indices cfg a))) 0 0 (begin_bit a) (end_bit a)) w
        = small_indices cfg a ! w"
      by (rule small_entry[OF ic(2) w]) (simp_all add: make_args_def)
    show "end_offsets a (small_indices cfg a ! w) - begin_offsets a (small_indices cfg a ! w)
          \<le> max_small_segment_length cfg"
      using w by (intro small_indices_short(2)) simp
  qed
  show ?thesis
    unfolding Let_def
    using ic(1) sel indices_by_length[of cfg a] ic(4) ic(2) ic(3) ic(5) small
    by (simp only: max_small_segment_length_def simp_thms)
qed

theorem segment_classification_witness:
  "temporary_storage call8 \<noteq> Null \<and> segments call8 \<noteq> 0
   \<and> do_partitioning cfg76 (segments call8) \<and> valid_alignment tp14
   \<and> fst (snd (carve tp14 call8 bufs8)) = Ptr 0 512
   \<and> fst (snd (snd (carve tp14 call8 bufs8))) = Ptr 0 768
   \<and> max_small_segment_length cfg76 = 4
   \<and> map (\<lambda>j. unat (index_mem (device_out
            (segmented_radix_sort_impl cfg76 tp14 env_ok False call8 bufs8 dev8))
            (Ptr 0 512) j)) [0..<unat (segments call8)] = [2, 0, 1]
   \<and> index_mem (device_out
         (segmented_radix_sort_impl cfg76 tp14 env_ok False call8 bufs8 dev8)) (Ptr 0 768) 0 = 1"
proof -
  have h1: "temporary_storage call8 \<noteq> Null" by (simp add: call8_def)
  have h2: "segments call8 \<noteq> 0" by (simp add: call8_def)
  have h3: "do_partitioning cfg76 (segments call8)"
    using do_partitioning_cfg76_3 by (simp add: call8_def)
  have m: "max_small_segment_length cfg76 = 4"
    by (simp add: max_small_segment_length_def cfg76_def)
  note t = segment_classification[OF h1 h2 h3 env_ok_all valid_tp14 carve_call8,
      where d=False and dev=dev8]
  from t have "map (\<lambda>j. unat (index_mem (device_out
            (segmented_radix_sort_impl cfg76 tp14 env_ok False call8 bufs8 dev8))
            (Ptr 0 512) j)) [0..<unat (segments call8)]
          = large_indices cfg76 call8 @ small_indices cfg76 call8
   \<and> index_mem (device_out
         (segmented_radix_sort_impl cfg76 tp14 env_ok False call8 bufs8 dev8)) (Ptr 0 768) 0
       = word_of_nat (length (large_indices cfg76 call8))"
    unfolding Let_def by blast
  then have c: "map (\<lambda>j. unat (index_mem (device_out
            (segmented_radix_sort_impl cfg76 tp14 env_ok False call8 bufs8 dev8))
            (Ptr 0 512) j)) [0..<unat (segments call8)] = [2, 0, 1]
   \<and> index_mem (device_out
         (segmented_radix_sort_impl cfg76 tp14 env_ok False call8 bufs8 dev8)) (Ptr 0 768) 0 = 1"
    unfolding indices_call8 by simp
  have p: "fst (snd (carve tp14 call8 bufs8)) = Ptr 0 512"
    "fst (snd (snd (carve tp14 call8 bufs8))) = Ptr 0 768"
    by (simp_all add: carve_call8)
  from h1 h2 h3 valid_tp14 p m c show ?thesis by blast
qed

text \<open>
  The threshold is not the capacity of a worker group. With two sub-groups of four
  lanes per group and one item per lane the capacity of a group is eight items and the
  threshold is four: the segment \<open>[3, 8)\<close> of the example has five items, is selected
  as large, and comes first in the index array, with a count of one.
\<close>

theorem classification_threshold_counterexample:
  "small_segments_per_block cfg76 = 2 \<and> max_small_segment_length cfg76 = 4
   \<and> per_group_capacity cfg76 = 8
   \<and> end_offsets call8 2 - begin_offsets call8 2 = 5
   \<and> \<not> per_group_capacity cfg76 < end_offsets call8 2 - begin_offsets call8 2
   \<and> large_segment_selector cfg76 (begin_offsets call8) (end_offsets call8) 2
   \<and> index_mem (device_out
         (segmented_radix_sort_impl cfg76 tp14 env_ok False call8 bufs8 dev8)) (Ptr 0 768) 0 = 1
   \<and> map (\<lambda>j. unat (index_mem (device_out
            (segmented_radix_sort_impl cfg76 tp14 env_ok False call8 bufs8 dev8))
            (Ptr 0 512) j)) [0..<unat (segments call8)] = [2, 0, 1]"
proof -
  have h1: "temporary_storage call8 \<noteq> Null" by (simp add: call8_def)
  have h2: "segments call8 \<noteq> 0" by (simp add: call8_def)
  have h3: "do_partitioning cfg76 (segments call8)"
    using do_partitioning_cfg76_3 by (simp add: call8_def)
  have ok: "\<And>site. hip_result env_ok site = hipSuccess" by (simp add: env_ok_def)
  note ic = impl_classified[OF h1 h2 h3 ok valid_tp14 carve_call8 refl,
      where d=False and dev=dev8]
  have a: "small_segments_per_block cfg76 = 2" "max_small_segment_length cfg76 = 4"
    by (simp_all add: small_segments_per_block_def max_small_segment_length_def cfg76_def)
  have b: "per_group_capacity cfg76 = 8" by (simp add: per_group_capacity_def a)
  have l: "end_offsets call8 2 - begin_offsets call8 2 = 5"
    by (simp add: call8_def offsets3_def)
  have s: "large_segment_selector cfg76 (begin_offsets call8) (end_offsets call8) 2"
    by (simp add: large_segment_selector_def Let_def a)
       (simp add: call8_def offsets3_def)
  have n: "\<not> per_group_capacity cfg76 < end_offsets call8 2 - begin_offsets call8 2"
    unfolding b l by simp
  have c: "index_mem (device_out
         (segmented_radix_sort_impl cfg76 tp14 env_ok False call8 bufs8 dev8)) (Ptr 0 768) 0 = 1"
    using ic(3) by (simp add: indices_call8)
  have i: "map (\<lambda>j. unat (index_mem (device_out
            (segmented_radix_sort_impl cfg76 tp14 env_ok False call8 bufs8 dev8))
            (Ptr 0 512) j)) [0..<unat (segments call8)] = [2, 0, 1]"
    using ic(2) by (simp add: indices_call8)
  from a b l n s c i show ?thesis by blast
qed

section \<open>Calls without segments\<close>

lemma sort_to_output_zero_segments:
  assumes "temporary_storage a \<noteq> Null" and "segments a = 0"
  shows "sort_to_output cfg tp env d a ki ko vi vo dev =
     \<lparr>error = hipSuccess, storage_size_after = storage_size a, device_after = dev\<rparr>"
  by (simp add: sort_to_output_def impl_zero_segments[OF assms])

lemma sort_double_buffer_zero_segments:
  assumes "temporary_storage a \<noteq> Null" and "segments a = 0"
  shows "sort_double_buffer cfg tp env d a keys vals dev =
     (\<lparr>error = hipSuccess, storage_size_after = storage_size a, device_after = dev\<rparr>,
      if is_result_in_output cfg (current keys \<noteq> Null) (end_bit a - begin_bit a)
      then (swap keys, swap vals) else (keys, vals))"
  using assms by (simp add: sort_double_buffer_def impl_zero_segments[OF assms])

text \<open>
  C6 (as amended). An execute-phase call with no segments returns success and leaves the
  whole device as it was: no buffer is written, nothing is launched and nothing is
  printed, in all eight entry points. The double-buffer entry points still swap their
  handles when the result flag is set.
\<close>

theorem zero_segments_leave_buffers:
  assumes "temporary_storage a \<noteq> Null" and "segments a = 0"
  shows "segmented_radix_sort_keys cfg tp env a ki ko dev1
           = \<lparr>error = hipSuccess, storage_size_after = storage_size a, device_after = dev1\<rparr>
       \<and> segmented_radix_sort_keys_desc cfg tp env a ki ko dev1
           = \<lparr>error = hipSuccess, storage_size_after = storage_size a, device_after = dev1\<rparr>
       \<and> segmented_radix_sort_pairs cfg tp env a ki ko vi vo dev
           = \<lparr>error = hipSuccess, storage_size_after = storage_size a, device_after = dev\<rparr>
       \<and> segmented_radix_sort_pairs_desc cfg tp env a ki ko vi vo dev
           = \<lparr>error = hipSuccess, storage_size_after = storage_size a, device_after = dev\<rparr>
       \<and> segmented_radix_sort_keys_db cfg tp env a keys dev1
           = (\<lparr>error = hipSuccess, storage_size_after = storage_size a, device_after = dev1\<rparr>,
              if is_result_in_output cfg (current keys \<noteq> Null) (end_bit a - begin_bit a)
              then swap keys else keys)
       \<and> segmented_radix_sort_keys_desc_db cfg tp env a keys dev1
           = (\<lparr>error = hipSuccess, storage_size_after = storage_size a, device_after = dev1\<rparr>,
              if is_result_in_output cfg (current keys \<noteq> Null) (end_bit a - begin_bit a)
              then swap keys else keys)
       \<and> segmented_radix_sort_pairs_db cfg tp env a keys vals dev
           = (\<lparr>error = hipSuccess, storage_size_after = storage_size a, device_after = dev\<rparr>,
              if is_result_in_output cfg (current keys \<noteq> Null) (end_bit a - begin_bit a)
              then (swap keys, swap vals) else (keys, vals))
       \<and> segmented_radix_sort_pairs_desc_db cfg tp env a keys vals dev
           = (\<lparr>error = hipSuccess, storage_size_after = storage_size a, device_after = dev\<rparr>,
              if is_result_in_output cfg (current keys \<noteq> Null) (end_bit a - begin_bit a)
              then (swap keys, swap vals) else (keys, vals))"
  by (simp add: segmented_radix_sort_keys_def segmented_radix_sort_keys_desc_def
      segmented_radix_sort_pairs_def segmented_radix_sort_pairs_desc_def
      segmented_radix_sort_keys_db_def segmented_radix_sort_keys_desc_db_def
      segmented_radix_sort_pairs_db_def segmented_radix_sort_pairs_desc_db_def
      sort_to_output_zero_segments[OF assms] sort_double_buffer_zero_segments[OF assms])

lemma call0_facts: "temporary_storage call0 \<noteq> Null" "segments call0 = 0"
  "end_bit call0 - begin_bit call0 = 7"
  by (simp_all add: call0_def call8_def)

theorem zero_segments_leave_buffers_witness:
  "temporary_storage call0 \<noteq> Null \<and> segments call0 = 0
   \<and> segmented_radix_sort_pairs cfg76 tp14 env_ok call0 (Ptr 1 0) (Ptr 2 0) (Ptr 3 0) (Ptr 4 0) dev8
       = \<lparr>error = hipSuccess, storage_size_after = 2048, device_after = dev8\<rparr>"
  using zero_segments_leave_buffers[OF call0_facts(1,2), where cfg=cfg76 and tp=tp14
      and env=env_ok and ki="Ptr 1 0" and ko="Ptr 2 0" and vi="Ptr 3 0" and vo="Ptr 4 0"
      and dev=dev8 and keys=keys8 and vals=values8
      and ?dev1.0="\<lparr>keys_mem = keys_mem dev8, values_mem = (\<lambda>p i. ()),
         index_mem = index_mem dev8, device_ops = [], console = []\<rparr>"]
    call0_facts
  by (simp add: call0_def call8_def)

text \<open>
  The claim as stated fails: a double-buffer call over 7 bits without segments returns
  with its handles exchanged, so it is not without effect.
\<close>

theorem zero_segments_swap_counterexample:
  "temporary_storage call0 \<noteq> Null \<and> segments call0 = 0
   \<and> error (fst (segmented_radix_sort_pairs_db cfg76 tp14 env_ok call0 keys8 values8 dev8))
       = hipSuccess
   \<and> snd (segmented_radix_sort_pairs_db cfg76 tp14 env_ok call0 keys8 values8 dev8)
       = (\<lparr>current = Ptr 2 0, alternate = Ptr 1 0\<rparr>, \<lparr>current = Ptr 4 0, alternate = Ptr 3 0\<rparr>)
   \<and> keys8 = \<lparr>current = Ptr 1 0, alternate = Ptr 2 0\<rparr>"
  by (simp add: segmented_radix_sort_pairs_db_def
      sort_double_buffer_zero_segments[OF call0_facts(1,2)] call0_facts is_result_cfg76_7)
     (simp add: keys8_def values8_def swap_def is_result_cfg76_7)

section \<open>C7: the classification of segments does not change the result\<close>

subsection \<open>A sorted result is determined by the input\<close>





section \<open>Errors of the partition primitive and of the read-back\<close>

text \<open>
  C8. In the query phase a failing sizing call of the partition primitive is returned as
  it is, the device memory is left as it was, no kernel is launched and the primitive is
  called at most once. In the execute phase with classification, the first failure among
  the partition call, the copy of the large-segment count and the synchronisation that
  follows it is returned as it is: no kernel is launched, keys and values are left as
  they were, and the partition primitive has been called exactly once.
\<close>

theorem partition_errors_abort:
  "(temporary_storage a = Null \<longrightarrow>
      (let r = segmented_radix_sort_impl cfg tp env d a bufs dev
       in (do_partitioning cfg (segments a) \<and> hip_result env PartitionQuery \<noteq> hipSuccess
             \<longrightarrow> status r = hip_result env PartitionQuery)
          \<and> keys_mem (device_out r) = keys_mem dev
          \<and> values_mem (device_out r) = values_mem dev
          \<and> index_mem (device_out r) = index_mem dev
          \<and> launches (device_ops (device_out r)) = launches (device_ops dev)
          \<and> length (partition_calls (device_ops (device_out r)))
               \<le> Suc (length (partition_calls (device_ops dev)))))
   \<and> (temporary_storage a \<noteq> Null \<and> segments a \<noteq> 0 \<and> do_partitioning cfg (segments a)
        \<and> (debug_synchronous a \<longrightarrow> hip_result env DumpSync = hipSuccess)
        \<and> first_failure env [PartitionRun, CountMemcpy, CountSync] \<noteq> hipSuccess \<longrightarrow>
      (let r = segmented_radix_sort_impl cfg tp env d a bufs dev
       in status r = first_failure env [PartitionRun, CountMemcpy, CountSync]
          \<and> keys_mem (device_out r) = keys_mem dev
          \<and> values_mem (device_out r) = values_mem dev
          \<and> launches (device_ops (device_out r)) = launches (device_ops dev)
          \<and> length (partition_calls (device_ops (device_out r)))
               = Suc (length (partition_calls (device_ops dev)))))"
proof (intro conjI impI)
  assume q: "temporary_storage a = Null"
  show "let r = segmented_radix_sort_impl cfg tp env d a bufs dev
       in (do_partitioning cfg (segments a) \<and> hip_result env PartitionQuery \<noteq> hipSuccess
             \<longrightarrow> status r = hip_result env PartitionQuery)
          \<and> keys_mem (device_out r) = keys_mem dev
          \<and> values_mem (device_out r) = values_mem dev
          \<and> index_mem (device_out r) = index_mem dev
          \<and> launches (device_ops (device_out r)) = launches (device_ops dev)
          \<and> length (partition_calls (device_ops (device_out r)))
               \<le> Suc (length (partition_calls (device_ops dev)))"
    unfolding impl_query[OF q] query_storage_size_cases
    by (simp add: Let_def launches_simps partition_calls_simps)
next
  assume h: "temporary_storage a \<noteq> Null \<and> segments a \<noteq> 0 \<and> do_partitioning cfg (segments a)
        \<and> (debug_synchronous a \<longrightarrow> hip_result env DumpSync = hipSuccess)
        \<and> first_failure env [PartitionRun, CountMemcpy, CountSync] \<noteq> hipSuccess"
  obtain bufs1 p1 p2 p3 where c: "carve tp a bufs = (bufs1, p1, p2, p3)"
    by (cases "carve tp a bufs") auto
  from h have ts: "temporary_storage a \<noteq> Null" by simp
  note nn = carve_not_Null[OF ts c]
  consider (p) "hip_result env PartitionRun \<noteq> hipSuccess"
    | (m) "hip_result env PartitionRun = hipSuccess" "hip_result env CountMemcpy \<noteq> hipSuccess"
    | (s) "hip_result env PartitionRun = hipSuccess" "hip_result env CountMemcpy = hipSuccess"
          "hip_result env CountSync \<noteq> hipSuccess"
    using h by (auto split: if_splits)
  then show "let r = segmented_radix_sort_impl cfg tp env d a bufs dev
       in status r = first_failure env [PartitionRun, CountMemcpy, CountSync]
          \<and> keys_mem (device_out r) = keys_mem dev
          \<and> values_mem (device_out r) = values_mem dev
          \<and> launches (device_ops (device_out r)) = launches (device_ops dev)
          \<and> length (partition_calls (device_ops (device_out r)))
               = Suc (length (partition_calls (device_ops dev)))"
  proof cases
    case p
    show ?thesis
      using h p nn(3)
      by (simp add: impl_execute c Let_def partitioned_dispatch_partition_fails
          debug_dump_frame launches_simps partition_calls_simps)
  next
    case m
    show ?thesis
      using h m nn(3)
      by (simp add: impl_execute c Let_def partitioned_dispatch_memcpy_fails
          debug_dump_frame partition_effect_frame launches_simps partition_calls_simps)
  next
    case s
    show ?thesis
      using h s nn(3)
      by (simp add: impl_execute c Let_def partitioned_dispatch_sync_fails
          debug_dump_frame partition_effect_frame launches_simps partition_calls_simps)
  qed
qed

lemma call8_facts: "temporary_storage call8 \<noteq> Null" "segments call8 = 3"
  "debug_synchronous call8 = False"
  by (simp_all add: call8_def)

theorem partition_errors_abort_witness:
  "temporary_storage call8 \<noteq> Null \<and> segments call8 \<noteq> 0
   \<and> do_partitioning cfg76 (segments call8)
   \<and> first_failure (env_failing CountMemcpy) [PartitionRun, CountMemcpy, CountSync] = hipError 1
   \<and> status (segmented_radix_sort_impl cfg76 tp14 (env_failing CountMemcpy) False call8 bufs8 dev8)
       = hipError 1
   \<and> launches (device_ops (device_out
         (segmented_radix_sort_impl cfg76 tp14 (env_failing CountMemcpy) False call8 bufs8 dev8)))
       = []"
  using partition_errors_abort[where a=call8 and cfg=cfg76 and env="env_failing CountMemcpy"
      and tp=tp14 and d=False and bufs=bufs8 and dev=dev8]
  by (simp add: Let_def call8_facts do_partitioning_cfg76_3 env_failing_def)
     (simp add: dev8_def launches_simps)

section \<open>C9: the debug flag and the result\<close>

text \<open>
  Claim C9, for runs in which the synchronisations that only a debug run performs
  succeed. Take two calls that differ in \<open>debug_synchronous\<close> only. The result location
  reported by the implementation and the handles the double-buffer entry points return
  are the same in every case. When the synchronisation after the diagnostic dump and
  the synchronisations after the large-segment, the small-segment and the uniform
  launch succeed, the two calls return the same status and the same storage size and
  leave the same key, value and index memory; this holds for the shared
  implementation, for the entry points with separate outputs and for the double-buffer
  entry points, of which the eight public entry points are instances. The partition
  primitive receives the flag as well; its model does not depend on it.
\<close>

theorem debug_flag_preserves_result:
  fixes dev :: "('k::len word, 'v) device"
  shows "(hip_result env DumpSync = hipSuccess \<and> hip_result env LargeSync = hipSuccess
          \<and> hip_result env SmallSync = hipSuccess \<and> hip_result env UniformSync = hipSuccess
          \<longrightarrow>
          (let r1 = segmented_radix_sort_impl cfg tp env d (a\<lparr>debug_synchronous := True\<rparr>)
                      bufs dev;
               r0 = segmented_radix_sort_impl cfg tp env d (a\<lparr>debug_synchronous := False\<rparr>)
                      bufs dev
           in status r1 = status r0 \<and> storage_size_out r1 = storage_size_out r0
              \<and> same_memory (device_out r1) (device_out r0))
          \<and> (let r1 = sort_to_output cfg tp env d (a\<lparr>debug_synchronous := True\<rparr>)
                        ki ko vi vo dev;
                  r0 = sort_to_output cfg tp env d (a\<lparr>debug_synchronous := False\<rparr>)
                        ki ko vi vo dev
              in error r1 = error r0 \<and> storage_size_after r1 = storage_size_after r0
                 \<and> same_memory (device_after r1) (device_after r0))
          \<and> (let r1 = sort_double_buffer cfg tp env d (a\<lparr>debug_synchronous := True\<rparr>)
                        keys vals dev;
                  r0 = sort_double_buffer cfg tp env d (a\<lparr>debug_synchronous := False\<rparr>)
                        keys vals dev
              in error (fst r1) = error (fst r0)
                 \<and> storage_size_after (fst r1) = storage_size_after (fst r0)
                 \<and> same_memory (device_after (fst r1)) (device_after (fst r0))))
       \<and> result_in_output
             (segmented_radix_sort_impl cfg tp env d (a\<lparr>debug_synchronous := True\<rparr>) bufs dev)
           = result_in_output
             (segmented_radix_sort_impl cfg tp env d (a\<lparr>debug_synchronous := False\<rparr>) bufs dev)
       \<and> snd (sort_double_buffer cfg tp env d (a\<lparr>debug_synchronous := True\<rparr>) keys vals dev)
           = snd (sort_double_buffer cfg tp env d (a\<lparr>debug_synchronous := False\<rparr>) keys vals dev)"
proof -
  let ?a0 = "a\<lparr>debug_synchronous := False\<rparr>"
  let ?a1 = "a\<lparr>debug_synchronous := True\<rparr>"
  have a1: "?a0\<lparr>debug_synchronous := True\<rparr> = ?a1" by simp
  have loc: "result_in_output (segmented_radix_sort_impl cfg tp env d ?a1 bufs' dev)
           = result_in_output (segmented_radix_sort_impl cfg tp env d ?a0 bufs' dev)" for bufs'
    by (simp add: impl_result_flag)
  have handles: "snd (sort_double_buffer cfg tp env d ?a1 keys vals dev)
           = snd (sort_double_buffer cfg tp env d ?a0 keys vals dev)"
    by (simp add: sort_double_buffer_def Let_def loc)
  {
    assume ok: "hip_result env DumpSync = hipSuccess \<and> hip_result env LargeSync = hipSuccess
          \<and> hip_result env SmallSync = hipSuccess \<and> hip_result env UniformSync = hipSuccess"
    note i = impl_debug[where env=env and a="?a0" and b=True and cfg=cfg and tp=tp and d=d
        and dev=dev, unfolded a1, OF ok[THEN conjunct1] ok[THEN conjunct2, THEN conjunct1]
        ok[THEN conjunct2, THEN conjunct2, THEN conjunct1]
        ok[THEN conjunct2, THEN conjunct2, THEN conjunct2]]
    have c1: "let r1 = segmented_radix_sort_impl cfg tp env d ?a1 bufs dev;
               r0 = segmented_radix_sort_impl cfg tp env d ?a0 bufs dev
           in status r1 = status r0 \<and> storage_size_out r1 = storage_size_out r0
              \<and> same_memory (device_out r1) (device_out r0)"
      unfolding Let_def using i(1)[of bufs] i(2)[of bufs] i(3)[of bufs] by simp
    have c2: "let r1 = sort_to_output cfg tp env d ?a1 ki ko vi vo dev;
                  r0 = sort_to_output cfg tp env d ?a0 ki ko vi vo dev
              in error r1 = error r0 \<and> storage_size_after r1 = storage_size_after r0
                 \<and> same_memory (device_after r1) (device_after r0)"
      unfolding Let_def sort_to_output_def using i by simp
    have c3: "let r1 = sort_double_buffer cfg tp env d ?a1 keys vals dev;
                  r0 = sort_double_buffer cfg tp env d ?a0 keys vals dev
              in error (fst r1) = error (fst r0)
                 \<and> storage_size_after (fst r1) = storage_size_after (fst r0)
                 \<and> same_memory (device_after (fst r1)) (device_after (fst r0))"
      unfolding Let_def sort_double_buffer_def using i by simp
    note c1 c2 c3
  }
  then show ?thesis using loc[of bufs] handles by blast
qed

theorem debug_flag_preserves_result_witness:
  "hip_result env_ok DumpSync = hipSuccess \<and> hip_result env_ok LargeSync = hipSuccess
   \<and> hip_result env_ok SmallSync = hipSuccess \<and> hip_result env_ok UniformSync = hipSuccess
   \<and> error (sort_to_output cfg76 tp14 env_ok False (call8\<lparr>debug_synchronous := True\<rparr>)
               (Ptr 1 0) (Ptr 2 0) (Ptr 3 0) (Ptr 4 0) dev8)
       = error (sort_to_output cfg76 tp14 env_ok False (call8\<lparr>debug_synchronous := False\<rparr>)
               (Ptr 1 0) (Ptr 2 0) (Ptr 3 0) (Ptr 4 0) dev8)
   \<and> same_memory
        (device_after (sort_to_output cfg76 tp14 env_ok False (call8\<lparr>debug_synchronous := True\<rparr>)
               (Ptr 1 0) (Ptr 2 0) (Ptr 3 0) (Ptr 4 0) dev8))
        (device_after (sort_to_output cfg76 tp14 env_ok False (call8\<lparr>debug_synchronous := False\<rparr>)
               (Ptr 1 0) (Ptr 2 0) (Ptr 3 0) (Ptr 4 0) dev8))
   \<and> snd (sort_double_buffer cfg76 tp14 env_ok False (call8\<lparr>debug_synchronous := True\<rparr>)
            keys8 values8 dev8)
       = snd (sort_double_buffer cfg76 tp14 env_ok False (call8\<lparr>debug_synchronous := False\<rparr>)
            keys8 values8 dev8)"
proof -
  have ok: "hip_result env_ok DumpSync = hipSuccess" "hip_result env_ok LargeSync = hipSuccess"
    "hip_result env_ok SmallSync = hipSuccess" "hip_result env_ok UniformSync = hipSuccess"
    by (simp_all add: env_ok_def)
  note t = debug_flag_preserves_result[where env=env_ok and cfg=cfg76 and tp=tp14 and d=False
      and a=call8 and bufs=bufs8 and dev=dev8 and ki="Ptr 1 0" and ko="Ptr 2 0"
      and vi="Ptr 3 0" and vo="Ptr 4 0" and keys=keys8 and vals=values8]
  from t ok have "error (sort_to_output cfg76 tp14 env_ok False (call8\<lparr>debug_synchronous := True\<rparr>)
               (Ptr 1 0) (Ptr 2 0) (Ptr 3 0) (Ptr 4 0) dev8)
       = error (sort_to_output cfg76 tp14 env_ok False (call8\<lparr>debug_synchronous := False\<rparr>)
               (Ptr 1 0) (Ptr 2 0) (Ptr 3 0) (Ptr 4 0) dev8)
   \<and> same_memory
        (device_after (sort_to_output cfg76 tp14 env_ok False (call8\<lparr>debug_synchronous := True\<rparr>)
               (Ptr 1 0) (Ptr 2 0) (Ptr 3 0) (Ptr 4 0) dev8))
        (device_after (sort_to_output cfg76 tp14 env_ok False (call8\<lparr>debug_synchronous := False\<rparr>)
               (Ptr 1 0) (Ptr 2 0) (Ptr 3 0) (Ptr 4 0) dev8))
   \<and> snd (sort_double_buffer cfg76 tp14 env_ok False (call8\<lparr>debug_synchronous := True\<rparr>)
            keys8 values8 dev8)
       = snd (sort_double_buffer cfg76 tp14 env_ok False (call8\<lparr>debug_synchronous := False\<rparr>)
            keys8 values8 dev8)"
    unfolding Let_def by blast
  with ok show ?thesis by blast
qed

lemma first_pair_call8:
  "sort_key (\<lambda>p. digit_rank False 0 8 (fst p)) (segment_pairs dev8 (Ptr 1 0, Ptr 3 0) 0 2)
   = [(3, 11), (6, 10)]"
proof -
  have "[0..<2] = [0, Suc 0]" by (simp add: numeral_2_eq_2)
  then have "segment_pairs dev8 (Ptr 1 0, Ptr 3 0) 0 2 = [(6, 10), (3, 11)]"
    by (simp add: segment_pairs_def load_segment_def dev8_def)
  then show ?thesis by (simp add: digit_rank_def key_digit_def)
qed

text \<open>
  A failing synchronisation of the debug run changes the outcome: when the
  synchronisation after the dump fails, the debug run returns that error before any
  kernel is launched and the output array is as it was, while the run without the
  flag, in which that synchronisation does not occur, succeeds and sorts.
\<close>

theorem debug_sync_failure_counterexample:
  "hip_result (env_failing DumpSync) UniformLaunch = hipSuccess
   \<and> error (sort_to_output cfg76_uniform tp14 (env_failing DumpSync) False
               (call8\<lparr>debug_synchronous := True\<rparr>)
               (Ptr 1 0) (Ptr 2 0) (Ptr 3 0) (Ptr 4 0) dev8) = hipError 1
   \<and> keys_mem (device_after (sort_to_output cfg76_uniform tp14 (env_failing DumpSync) False
               (call8\<lparr>debug_synchronous := True\<rparr>)
               (Ptr 1 0) (Ptr 2 0) (Ptr 3 0) (Ptr 4 0) dev8)) (Ptr 2 0) 0 = 0
   \<and> error (sort_to_output cfg76_uniform tp14 (env_failing DumpSync) False
               (call8\<lparr>debug_synchronous := False\<rparr>)
               (Ptr 1 0) (Ptr 2 0) (Ptr 3 0) (Ptr 4 0) dev8) = hipSuccess
   \<and> keys_mem (device_after (sort_to_output cfg76_uniform tp14 (env_failing DumpSync) False
               (call8\<lparr>debug_synchronous := False\<rparr>)
               (Ptr 1 0) (Ptr 2 0) (Ptr 3 0) (Ptr 4 0) dev8)) (Ptr 2 0) 0 = 3"
proof -
  let ?env = "env_failing DumpSync"
  let ?a1 = "call8\<lparr>debug_synchronous := True\<rparr>"
  let ?a0 = "call8\<lparr>debug_synchronous := False\<rparr>"
  have a0: "?a0 = call8" by (simp add: call8_def)
  have e: "hip_result ?env UniformLaunch = hipSuccess" "hip_result ?env DumpSync = hipError 1"
    by (simp_all add: env_failing_def)
  have x1: "temporary_storage ?a1 \<noteq> Null" "segments ?a1 \<noteq> 0"
    and x0: "temporary_storage call8 \<noteq> Null" "segments call8 \<noteq> 0"
    by (simp_all add: call8_def)
  have np: "\<not> do_partitioning cfg76_uniform n" for n by (rule do_partitioning_uniform)
  have bufs: "\<lparr>keys_input = Ptr 1 0, keys_tmp = Null, keys_output = Ptr 2 0,
               values_input = Ptr 3 0, values_tmp = Null, values_output = Ptr 4 0\<rparr> = bufs8"
    by (simp add: bufs8_def)
  have d1: "status (segmented_radix_sort_impl cfg76_uniform tp14 ?env False ?a1 bufs8 dev8)
            = hipError 1"
    "device_out (segmented_radix_sort_impl cfg76_uniform tp14 ?env False ?a1 bufs8 dev8)
            = debug_dump cfg76_uniform ?a1 dev8"
    by (simp_all add: impl_uniform[OF x1 np] Let_def e)
  have k1: "keys_mem (debug_dump cfg76_uniform ?a1 dev8) (Ptr 2 0) 0 = 0"
    by (simp add: debug_dump_frame dev8_def)
  have s0: "status (segmented_radix_sort_impl cfg76_uniform tp14 ?env False call8 bufs8 dev8)
            = hipSuccess"
    by (simp add: impl_uniform_status[OF x0 np] e) (simp add: call8_def e)
  have dbg: "\<not> debug_synchronous call8" by (simp add: call8_def)
  note m0 = impl_uniform_mem[OF x0 np, of tp14 ?env False bufs8 dev8]
  note mk = impl_uniform_mem[OF x0 np, of tp14 env_ok False bufs8 dev8]
  have same: "keys_mem (device_out
                 (segmented_radix_sort_impl cfg76_uniform tp14 ?env False call8 bufs8 dev8))
            = keys_mem (device_out
                 (segmented_radix_sort_impl cfg76_uniform tp14 env_ok False call8 bufs8 dev8))"
    using m0 mk dbg e(1) by (simp add: same_data_def env_ok_def)
  have ok: "\<And>site. hip_result env_ok site = hipSuccess" by (simp add: env_ok_def)
  have bits: "begin_bit call8 < end_bit call8" by (simp add: call8_def)
  note so = sort_to_output_sorted[OF x0(1) ok valid_cfg76(2) valid_tp14 bits valid_call8,
      where d=False and dev=dev8 and ki="Ptr 1 0" and ko="Ptr 2 0" and vi="Ptr 3 0"
      and vo="Ptr 4 0"]
  have i0: "0 \<in> {0..<unat (segments call8)}" by (simp add: call8_def)
  have o: "unat (begin_offsets call8 0) = 0" "unat (end_offsets call8 0) = 2"
    "unat (begin_bit call8) = 0" "unat (end_bit call8) = 8"
    by (simp_all add: call8_def offsets3_def)
  let ?devk = "device_after (sort_to_output cfg76_uniform tp14 env_ok False call8
                 (Ptr 1 0) (Ptr 2 0) (Ptr 3 0) (Ptr 4 0) dev8)"
  have "segment_pairs ?devk (Ptr 2 0, Ptr 4 0) 0 2 = [(3, 11), (6, 10)]"
    using so(2)[unfolded sorted_on_def, THEN conjunct1, THEN bspec, OF i0]
    unfolding o first_pair_call8 .
  then have n0: "segment_pairs ?devk (Ptr 2 0, Ptr 4 0) 0 2 ! (0 - 0) = (3, 11)" by simp
  have "segment_pairs ?devk (Ptr 2 0, Ptr 4 0) 0 2 ! (0 - 0)
        = (keys_mem ?devk (fst (Ptr 2 0, Ptr 4 0)) 0, values_mem ?devk (snd (Ptr 2 0, Ptr 4 0)) 0)"
    by (rule segment_pairs_nth) simp_all
  with n0 have k3: "keys_mem ?devk (Ptr 2 0) 0 = 3" by simp
  have r1: "error (sort_to_output cfg76_uniform tp14 ?env False ?a1
               (Ptr 1 0) (Ptr 2 0) (Ptr 3 0) (Ptr 4 0) dev8) = hipError 1"
    "keys_mem (device_after (sort_to_output cfg76_uniform tp14 ?env False ?a1
               (Ptr 1 0) (Ptr 2 0) (Ptr 3 0) (Ptr 4 0) dev8)) (Ptr 2 0) 0 = 0"
    unfolding sort_to_output_def Let_def bufs using d1 k1 by simp_all
  have r0: "error (sort_to_output cfg76_uniform tp14 ?env False ?a0
               (Ptr 1 0) (Ptr 2 0) (Ptr 3 0) (Ptr 4 0) dev8) = hipSuccess"
    "keys_mem (device_after (sort_to_output cfg76_uniform tp14 ?env False ?a0
               (Ptr 1 0) (Ptr 2 0) (Ptr 3 0) (Ptr 4 0) dev8)) (Ptr 2 0) 0 = 3"
    using s0 same k3 unfolding a0 sort_to_output_def Let_def bufs by simp_all
  from e(1) r1 r0 show ?thesis by blast
qed

section \<open>C10: the uniform path uses the key and value scratch only\<close>

text \<open>
  Claim C10. Take an executing call with segments for which classification does not
  run, and let \<open>pi\<close>, \<open>pc\<close> and \<open>ps\<close> be the pointers the call computes for the
  segment-index region, the counter and the partition scratch. The sizing call with
  the same arguments succeeds and reports the bytes of the key scratch plus those of
  the value scratch, or the sentinel 4 if that is zero or the caller supplies a double
  buffer. Without a double buffer the key scratch starts at the temporary storage, the
  value scratch right after the key scratch, and the three region pointers lie after
  both, at the reported size and beyond; with a double buffer the scratch arrays are
  the caller's. Whatever the runtime calls return, the call adds to the operation
  log only synchronisations and the one launch of the uniform kernel, whose index-array
  argument is null: no partition call and no read-back, so none of the three pointers
  is handed to anything. The index memory is unchanged. A key or value element that
  changed lies in the scratch or the output array of its kind, at a position inside a
  segment, hence below the item count when the offsets are valid; and the item count
  times the size of a key (of a value) fits the key (value) scratch. Status and data
  of the result do not depend on the index memory the call started with.
\<close>

theorem uniform_path_storage:
  fixes dev dev2 :: "('k::len word, 'v) device"
  assumes "temporary_storage a \<noteq> Null" and "segments a \<noteq> 0"
    and "\<not> do_partitioning cfg (segments a)"
    and "carve tp a bufs = (b1, pi, pc, ps)"
    and "same_data dev dev2"
  shows "let r = segmented_radix_sort_impl cfg tp env d a bufs dev;
             r2 = segmented_radix_sort_impl cfg tp env d a bufs dev2;
             q = segmented_radix_sort_impl cfg tp env d (a\<lparr>temporary_storage := Null\<rparr>) bufs dev;
             dev' = device_out r;
             ts = temporary_storage a;
             kb = keys_bytes tp a;
             vb = values_bytes tp a;
             bits = end_bit a - begin_bit a;
             wdb = (keys_tmp bufs \<noteq> Null);
             uargs = make_args b1 (to_output cfg wdb bits) 0 Null 0
                       (long_iterations cfg bits) (short_iterations cfg bits)
                       (begin_bit a) (end_bit a)
         in status q = hipSuccess
            \<and> storage_size_out q = (if wdb \<or> kb + vb = 0 then 4 else kb + vb)
            \<and> keys_tmp b1 = (if wdb then keys_tmp bufs else ts)
            \<and> values_tmp b1 = (if wdb then values_tmp bufs
                               else if with_values tp then ptr_add ts kb else Null)
            \<and> pi = (if wdb then ts else ptr_add (ptr_add ts kb) vb)
            \<and> pc = ptr_add pi (segment_indices_bytes tp a)
            \<and> ps = ptr_add pc (large_segment_count_bytes tp)
            \<and> (\<exists>ops. device_ops dev' = device_ops dev @ ops
                  \<and> set ops \<subseteq> {StreamSynchronize,
                        LaunchKernel segmented_sort_kernel (segments a) (sort_block_size cfg)
                          uargs})
            \<and> k_segment_indices uargs = Null
            \<and> index_mem dev' = index_mem dev
            \<and> (\<forall>p j. keys_mem dev' p j \<noteq> keys_mem dev p j \<longrightarrow>
                  (p = keys_tmp b1 \<or> p = keys_output bufs)
                  \<and> (\<exists>i<unat (segments a). in_segment (begin_offsets a) (end_offsets a) i j)
                  \<and> (valid_offsets a \<longrightarrow> j < unat (size_items a)))
            \<and> (\<forall>p j. values_mem dev' p j \<noteq> values_mem dev p j \<longrightarrow>
                  (p = values_tmp b1 \<or> p = values_output bufs)
                  \<and> (\<exists>i<unat (segments a). in_segment (begin_offsets a) (end_offsets a) i j)
                  \<and> (valid_offsets a \<longrightarrow> j < unat (size_items a)))
            \<and> (alignment tp \<noteq> 0
                 \<and> unat (size_items a) * unat (sizeof_key tp) + unat (alignment tp) \<le> 2 ^ 64
                 \<longrightarrow> unat (size_items a) * unat (sizeof_key tp) \<le> unat kb)
            \<and> (with_values tp \<and> alignment tp \<noteq> 0
                 \<and> unat (size_items a) * unat (sizeof_value tp) + unat (alignment tp) \<le> 2 ^ 64
                 \<longrightarrow> unat (size_items a) * unat (sizeof_value tp) \<le> unat vb)
            \<and> status r2 = status r
            \<and> same_data dev' (device_out r2)"
proof -
  let ?r = "segmented_radix_sort_impl cfg tp env d a bufs dev"
  let ?ts = "temporary_storage a"
  note e = assms(1,2,3)
  have b1: "fst (carve tp a bufs) = b1" by (simp add: assms(4))
  have c: "keys_tmp b1 = (if keys_tmp bufs \<noteq> Null then keys_tmp bufs else ?ts)"
    "values_tmp b1 = (if keys_tmp bufs \<noteq> Null then values_tmp bufs
                      else if with_values tp then ptr_add ?ts (keys_bytes tp a) else Null)"
    "pi = (if keys_tmp bufs \<noteq> Null then ?ts
           else ptr_add (ptr_add ?ts (keys_bytes tp a)) (values_bytes tp a))"
    "pc = ptr_add pi (segment_indices_bytes tp a)"
    "ps = ptr_add pc (large_segment_count_bytes tp)"
    using assms(4) by (auto simp add: carve_def Let_def split: if_splits)
  note q = uniform_query[OF assms(3), of tp env d bufs dev]
  note ops = impl_uniform_ops[OF e, of tp env d bufs dev, unfolded b1]
  have nul: "k_segment_indices (make_args b1 t 0 Null 0 li si bb eb) = Null" for t li si bb eb
    by (simp add: make_args_def)
  note ix = impl_uniform_index[OF e, of tp env d bufs dev]
  note w = uniform_writes[OF e refl, of tp env d bufs dev, unfolded b1]
  have wk: "\<forall>p j. keys_mem (device_out ?r) p j \<noteq> keys_mem dev p j \<longrightarrow>
                  (p = keys_tmp b1 \<or> p = keys_output bufs)
                  \<and> (\<exists>i<unat (segments a). in_segment (begin_offsets a) (end_offsets a) i j)
                  \<and> (valid_offsets a \<longrightarrow> j < unat (size_items a))"
    using w(1) in_segment_bound[of a] by blast
  have wv: "\<forall>p j. values_mem (device_out ?r) p j \<noteq> values_mem dev p j \<longrightarrow>
                  (p = values_tmp b1 \<or> p = values_output bufs)
                  \<and> (\<exists>i<unat (segments a). in_segment (begin_offsets a) (end_offsets a) i j)
                  \<and> (valid_offsets a \<longrightarrow> j < unat (size_items a))"
    using w(2) in_segment_bound[of a] by blast
  have ck: "alignment tp \<noteq> 0
      \<and> unat (size_items a) * unat (sizeof_key tp) + unat (alignment tp) \<le> 2 ^ 64
      \<longrightarrow> unat (size_items a) * unat (sizeof_key tp) \<le> unat (keys_bytes tp a)"
    unfolding keys_bytes_def using scratch_capacity[of tp a "sizeof_key tp"] by blast
  have cv: "with_values tp \<and> alignment tp \<noteq> 0
      \<and> unat (size_items a) * unat (sizeof_value tp) + unat (alignment tp) \<le> 2 ^ 64
      \<longrightarrow> unat (size_items a) * unat (sizeof_value tp) \<le> unat (values_bytes tp a)"
    unfolding values_bytes_def using scratch_capacity[of tp a "sizeof_value tp"] by simp
  note ind = uniform_independent[OF e assms(5), of tp env d bufs]
  show ?thesis
    unfolding Let_def
    using q(1) q(2) c(1) c(2) c(3) c(4) c(5) ops nul ix wk wv ck cv ind(1) ind(2)
    by (simp only: simp_thms)
qed

theorem uniform_path_storage_witness:
  "temporary_storage call8 \<noteq> Null \<and> segments call8 \<noteq> 0
   \<and> \<not> do_partitioning cfg76_uniform (segments call8)
   \<and> same_data dev8 (dev8\<lparr>index_mem := \<lambda>p i. 5\<rparr>)
   \<and> storage_size_out (segmented_radix_sort_impl cfg76_uniform tp14 env_ok False
         (call8\<lparr>temporary_storage := Null\<rparr>) bufs8 dev8) = 512
   \<and> Ptr 0 512 = ptr_add (ptr_add (temporary_storage call8) (keys_bytes tp14 call8))
                     (values_bytes tp14 call8)
   \<and> index_mem (device_out
         (segmented_radix_sort_impl cfg76_uniform tp14 env_ok False call8 bufs8 dev8))
       = index_mem dev8
   \<and> same_data
        (device_out (segmented_radix_sort_impl cfg76_uniform tp14 env_ok False call8 bufs8 dev8))
        (device_out (segmented_radix_sort_impl cfg76_uniform tp14 env_ok False call8 bufs8
           (dev8\<lparr>index_mem := \<lambda>p i. 5\<rparr>)))"
proof -
  have h1: "temporary_storage call8 \<noteq> Null" by (simp add: call8_def)
  have h2: "segments call8 \<noteq> 0" by (simp add: call8_def)
  have h3: "\<not> do_partitioning cfg76_uniform (segments call8)" by (rule do_partitioning_uniform)
  have h4: "keys_tmp bufs8 = Null" by (simp add: bufs8_def)
  have h6: "same_data dev8 (dev8\<lparr>index_mem := \<lambda>p i. 5\<rparr>)" by (simp add: same_data_def)
  have b: "keys_bytes tp14 call8 + values_bytes tp14 call8 = 512"
  proof -
    have "keys_bytes tp14 call8 = 256" "values_bytes tp14 call8 = 256"
      by (simp_all add: keys_bytes_def values_bytes_def call8_def align_size_tp14)
         (simp_all add: tp14_def align_size_tp14[unfolded tp14_def])
    then show ?thesis by simp
  qed
  note t = uniform_path_storage[OF h1 h2 h3 carve_call8 h6, where env=env_ok and d=False]
  from t have "storage_size_out (segmented_radix_sort_impl cfg76_uniform tp14 env_ok False
         (call8\<lparr>temporary_storage := Null\<rparr>) bufs8 dev8)
        = (if keys_tmp bufs8 \<noteq> Null \<or> keys_bytes tp14 call8 + values_bytes tp14 call8 = 0
           then 4 else keys_bytes tp14 call8 + values_bytes tp14 call8)
   \<and> Ptr 0 512 = (if keys_tmp bufs8 \<noteq> Null then temporary_storage call8
                    else ptr_add (ptr_add (temporary_storage call8) (keys_bytes tp14 call8))
                           (values_bytes tp14 call8))
   \<and> index_mem (device_out
         (segmented_radix_sort_impl cfg76_uniform tp14 env_ok False call8 bufs8 dev8))
       = index_mem dev8
   \<and> same_data
        (device_out (segmented_radix_sort_impl cfg76_uniform tp14 env_ok False call8 bufs8 dev8))
        (device_out (segmented_radix_sort_impl cfg76_uniform tp14 env_ok False call8 bufs8
           (dev8\<lparr>index_mem := \<lambda>p i. 5\<rparr>)))"
    unfolding Let_def by blast
  then have c: "storage_size_out (segmented_radix_sort_impl cfg76_uniform tp14 env_ok False
         (call8\<lparr>temporary_storage := Null\<rparr>) bufs8 dev8) = 512
   \<and> Ptr 0 512 = ptr_add (ptr_add (temporary_storage call8) (keys_bytes tp14 call8))
                     (values_bytes tp14 call8)
   \<and> index_mem (device_out
         (segmented_radix_sort_impl cfg76_uniform tp14 env_ok False call8 bufs8 dev8))
       = index_mem dev8
   \<and> same_data
        (device_out (segmented_radix_sort_impl cfg76_uniform tp14 env_ok False call8 bufs8 dev8))
        (device_out (segmented_radix_sort_impl cfg76_uniform tp14 env_ok False call8 bufs8
           (dev8\<lparr>index_mem := \<lambda>p i. 5\<rparr>)))"
    unfolding b using h4 by simp
  from h1 h2 h3 h6 c show ?thesis by blast
qed

end
